theory Spec2Isabelle
  imports Complex_Main "HOL-Library.Multiset" "HOL-Library.List_Lexorder"
    "HOL-Library.Product_Lexorder"
begin

text \<open>
  A model of the card, deck, hand evaluation, decision and game logic of the poker
  simulation (\<^verbatim>\<open>src/src/deck.py\<close>, \<^verbatim>\<open>src/src/player.py\<close>, \<^verbatim>\<open>src/src/game.py\<close>), followed
  by the properties proved of it. Functions that can raise return a sum whose left
  summand is the exception; loops without a bound take fuel and return \<open>None\<close> when it
  runs out; the random choices of a shuffle are a parameter.
\<close>

section \<open>Cards and the deck (src/src/deck.py)\<close>

text \<open>
  \<^verbatim>\<open>Suit\<close> and \<^verbatim>\<open>Rank\<close> are Python enums; the order of their members is the order of
  declaration, and \<^verbatim>\<open>list(Rank).index(r)\<close> is the position of \<open>r\<close> in that order.
\<close>

datatype suit = HEARTS | DIAMONDS | CLUBS | SPADES

datatype rank = TWO | THREE | FOUR | FIVE | SIX | SEVEN | EIGHT | NINE | TEN
  | JACK | QUEEN | KING | ACE

definition Suit :: "suit list" where
  "Suit = [HEARTS, DIAMONDS, CLUBS, SPADES]"

definition Rank :: "rank list" where
  "Rank = [TWO, THREE, FOUR, FIVE, SIX, SEVEN, EIGHT, NINE, TEN, JACK, QUEEN, KING, ACE]"

fun rank_index :: "rank \<Rightarrow> nat" where
  "rank_index TWO = 0"
| "rank_index THREE = 1"
| "rank_index FOUR = 2"
| "rank_index FIVE = 3"
| "rank_index SIX = 4"
| "rank_index SEVEN = 5"
| "rank_index EIGHT = 6"
| "rank_index NINE = 7"
| "rank_index TEN = 8"
| "rank_index JACK = 9"
| "rank_index QUEEN = 10"
| "rank_index KING = 11"
| "rank_index ACE = 12"

record card =
  rank :: rank
  suit :: suit

definition Card :: "rank \<Rightarrow> suit \<Rightarrow> card" where
  "Card r s = \<lparr>rank = r, suit = s\<rparr>"

text \<open>
  \<^verbatim>\<open>Card.__lt__\<close> compares the rank indices only, so \<^verbatim>\<open>sorted\<close> on cards is a stable
  sort on \<open>card_key\<close>. \<^verbatim>\<open>sorted(xs, reverse=True)\<close> keeps the original order of equal
  elements as well: the list is reversed, sorted stably and reversed again.
\<close>

definition card_key :: "card \<Rightarrow> nat" where
  "card_key c = rank_index (rank c)"

definition sorted_reverse :: "('a \<Rightarrow> 'k::linorder) \<Rightarrow> 'a list \<Rightarrow> 'a list" where
  "sorted_reverse key xs = rev (sort_key key (rev xs))"

text \<open>
  A \<^verbatim>\<open>Deck\<close> holds the remaining cards (a list, drawn from its end) and the set of
  discarded cards.
\<close>

record deck =
  cards :: "card list"
  discarded :: "card set"

definition create_deck :: "card list" where
  "create_deck = concat (map (\<lambda>s. map (\<lambda>r. Card r s) Rank) Suit)"

definition Deck :: deck where
  "Deck = \<lparr>cards = create_deck, discarded = {}\<rparr>"

text \<open>
  \<^verbatim>\<open>random.shuffle\<close> is the standard library's Fisher-Yates loop
  \<^verbatim>\<open>for i in reversed(range(1, len(x))): j = randbelow(i + 1); x[i], x[j] = x[j], x[i]\<close>.
  The random source is a parameter: \<open>rnd i\<close> is the number drawn at index \<open>i\<close>, reduced
  below \<open>i + 1\<close> as \<^verbatim>\<open>randbelow\<close> does.
\<close>

fun shuffle_loop :: "(nat \<Rightarrow> nat) \<Rightarrow> nat \<Rightarrow> 'a list \<Rightarrow> 'a list" where
  "shuffle_loop rnd 0 xs = xs"
| "shuffle_loop rnd (Suc i) xs =
     (let j = rnd (Suc i) mod (Suc (Suc i))
      in shuffle_loop rnd i (xs[Suc i := xs ! j, j := xs ! Suc i]))"

definition shuffle :: "(nat \<Rightarrow> nat) \<Rightarrow> deck \<Rightarrow> deck" where
  "shuffle rnd d = d\<lparr>cards := shuffle_loop rnd (length (cards d) - 1) (cards d)\<rparr>"

definition draw :: "deck \<Rightarrow> card option \<times> deck" where
  "draw d =
     (if cards d = [] then (None, d)
      else (Some (last (cards d)),
            d\<lparr>cards := butlast (cards d), discarded := insert (last (cards d)) (discarded d)\<rparr>))"

definition reset :: "(nat \<Rightarrow> nat) \<Rightarrow> deck \<Rightarrow> deck" where
  "reset rnd d = shuffle rnd (d\<lparr>cards := create_deck, discarded := {}\<rparr>)"

definition remaining :: "deck \<Rightarrow> nat" where
  "remaining d = length (cards d)"

text \<open>
  \<^verbatim>\<open>list.remove\<close> deletes the first equal element and raises \<^verbatim>\<open>ValueError\<close> when there
  is none; \<^verbatim>\<open>deal_specific_card\<close> catches it and returns \<^verbatim>\<open>None\<close> before the discard
  set is touched.
\<close>

definition deal_specific_card :: "rank \<Rightarrow> suit \<Rightarrow> deck \<Rightarrow> card option \<times> deck" where
  "deal_specific_card r s d =
     (let c = Card r s
      in if c \<in> set (cards d)
         then (Some c, d\<lparr>cards := remove1 c (cards d), discarded := insert c (discarded d)\<rparr>)
         else (None, d))"

text \<open>A sequence of deck operations, run on a freshly constructed deck.\<close>

datatype deck_op = Shuffle "nat \<Rightarrow> nat" | Draw | DealSpecific rank suit | Reset "nat \<Rightarrow> nat"

fun deck_step :: "deck \<Rightarrow> deck_op \<Rightarrow> deck" where
  "deck_step d (Shuffle rnd) = shuffle rnd d"
| "deck_step d Draw = snd (draw d)"
| "deck_step d (DealSpecific r s) = snd (deal_specific_card r s d)"
| "deck_step d (Reset rnd) = reset rnd d"

definition run_deck :: "deck_op list \<Rightarrow> deck" where
  "run_deck ops = foldl deck_step Deck ops"


text \<open>
  The invariant of the deck used in the proofs below: the remaining cards are distinct,
  none of them is discarded, and every card is either remaining or discarded.
\<close>

definition deck_inv :: "deck \<Rightarrow> bool" where
  "deck_inv d \<longleftrightarrow> distinct (cards d) \<and> set (cards d) \<inter> discarded d = {}
     \<and> set (cards d) \<union> discarded d = UNIV"

section \<open>Hand evaluation (src/src/player.py)\<close>

text \<open>
  Exceptions that the modelled code can raise. \<^verbatim>\<open>next(...)\<close> on an exhausted generator
  raises \<^verbatim>\<open>StopIteration\<close>, an index out of range \<^verbatim>\<open>IndexError\<close>, and \<^verbatim>\<open>%\<close> by zero
  \<^verbatim>\<open>ZeroDivisionError\<close>.
\<close>

datatype error = IndexError | StopIteration | ZeroDivisionError

datatype hand_rank = HIGH_CARD | PAIR | TWO_PAIR | THREE_OF_A_KIND | STRAIGHT | FLUSH
  | FULL_HOUSE | FOUR_OF_A_KIND | STRAIGHT_FLUSH | ROYAL_FLUSH

fun hand_rank_value :: "hand_rank \<Rightarrow> nat" where
  "hand_rank_value HIGH_CARD = 1"
| "hand_rank_value PAIR = 2"
| "hand_rank_value TWO_PAIR = 3"
| "hand_rank_value THREE_OF_A_KIND = 4"
| "hand_rank_value STRAIGHT = 5"
| "hand_rank_value FLUSH = 6"
| "hand_rank_value FULL_HOUSE = 7"
| "hand_rank_value FOUR_OF_A_KIND = 8"
| "hand_rank_value STRAIGHT_FLUSH = 9"
| "hand_rank_value ROYAL_FLUSH = 10"

text \<open>
  \<^verbatim>\<open>HandStrength\<close> has the fields \<^verbatim>\<open>rank\<close> and \<^verbatim>\<open>high_cards\<close>; the first is called
  \<open>hs_rank\<close> here, since \<open>rank\<close> is the field of a card.
\<close>

record hand_strength =
  hs_rank :: hand_rank
  high_cards :: "nat list"

definition HandStrength :: "hand_rank \<Rightarrow> nat list \<Rightarrow> hand_strength" where
  "HandStrength r hc = \<lparr>hs_rank = r, high_cards = hc\<rparr>"

text \<open>
  \<^verbatim>\<open>Counter(xs)\<close> counts the elements of \<open>xs\<close>; its items come in the order in which
  the keys were first seen.
\<close>

fun counter_add :: "'a \<Rightarrow> ('a \<times> nat) list \<Rightarrow> ('a \<times> nat) list" where
  "counter_add x [] = [(x, 1)]"
| "counter_add x ((k, c) # kcs) =
     (if k = x then (k, Suc c) # kcs else (k, c) # counter_add x kcs)"

definition Counter :: "'a list \<Rightarrow> ('a \<times> nat) list" where
  "Counter xs = foldl (\<lambda>acc x. counter_add x acc) [] xs"

text \<open>
  The walrus tests \<^verbatim>\<open>if result := check(...)\<close> take the branch when the result is
  neither \<^verbatim>\<open>None\<close> nor an empty list.
\<close>

definition truthy :: "'a list option \<Rightarrow> bool" where
  "truthy r = (case r of None \<Rightarrow> False | Some xs \<Rightarrow> xs \<noteq> [])"

definition wheel :: "rank list" where
  "wheel = [ACE, TWO, THREE, FOUR, FIVE]"

definition consecutive_at :: "rank list \<Rightarrow> nat \<Rightarrow> bool" where
  "consecutive_at ranks i =
     list_all (\<lambda>j. int (rank_index (ranks ! (i + j + 1))) - int (rank_index (ranks ! (i + j))) = 1)
       [0..<4]"

definition check_straight :: "card list \<Rightarrow> card list option" where
  "check_straight cs =
     (let ranks = sort_key rank_index (remdups (map rank cs))
      in if ACE \<in> set ranks \<and> TWO \<in> set ranks \<and> THREE \<in> set ranks \<and> FOUR \<in> set ranks
            \<and> FIVE \<in> set ranks
         then Some (sort_key card_key (filter (\<lambda>c. rank c \<in> set wheel) cs))
         else (case find (consecutive_at ranks) [0..<length ranks - 4] of
                 None \<Rightarrow> None
               | Some i \<Rightarrow>
                   (let straight_ranks = take 5 (drop i ranks)
                    in Some (take 5 (sort_key card_key
                               (filter (\<lambda>c. rank c \<in> set straight_ranks) cs))))))"

fun straight_flush_loop :: "suit list \<Rightarrow> card list \<Rightarrow> card list option" where
  "straight_flush_loop [] cs = None"
| "straight_flush_loop (s # ss) cs =
     (let suited_cards = sort_key card_key (filter (\<lambda>c. suit c = s) cs);
          straight = check_straight suited_cards
      in if truthy straight then straight else straight_flush_loop ss cs)"

definition check_straight_flush :: "card list \<Rightarrow> card list option" where
  "check_straight_flush cs = straight_flush_loop Suit cs"

fun four_of_a_kind_loop :: "(rank \<times> nat) list \<Rightarrow> card list \<Rightarrow> error + card list option" where
  "four_of_a_kind_loop [] cs = Inr None"
| "four_of_a_kind_loop ((r, cnt) # rcs) cs =
     (if cnt = 4
      then (let four_cards = filter (\<lambda>c. rank c = r) cs
            in case find (\<lambda>c. rank c \<noteq> r) cs of
                 None \<Rightarrow> Inl StopIteration
               | Some kicker \<Rightarrow> Inr (Some (four_cards @ [kicker])))
      else four_of_a_kind_loop rcs cs)"

definition check_four_of_a_kind :: "card list \<Rightarrow> error + card list option" where
  "check_four_of_a_kind cs = four_of_a_kind_loop (Counter (map rank cs)) cs"

fun full_house_loop ::
  "(rank \<times> nat) list \<Rightarrow> rank option \<Rightarrow> rank option \<Rightarrow> rank option \<times> rank option" where
  "full_house_loop [] three_rank pair_rank = (three_rank, pair_rank)"
| "full_house_loop ((r, cnt) # rcs) three_rank pair_rank =
     (if cnt \<ge> 3 \<and> three_rank = None then full_house_loop rcs (Some r) pair_rank
      else if cnt \<ge> 2 \<and> pair_rank = None then full_house_loop rcs three_rank (Some r)
      else full_house_loop rcs three_rank pair_rank)"

definition check_full_house :: "card list \<Rightarrow> card list option" where
  "check_full_house cs =
     (case full_house_loop (Counter (map rank cs)) None None of
        (Some three_rank, Some pair_rank) \<Rightarrow>
          Some (take 3 (filter (\<lambda>c. rank c = three_rank) cs)
                @ take 2 (filter (\<lambda>c. rank c = pair_rank) cs))
      | _ \<Rightarrow> None)"

fun flush_loop :: "suit list \<Rightarrow> card list \<Rightarrow> card list option" where
  "flush_loop [] cs = None"
| "flush_loop (s # ss) cs =
     (let suited_cards = filter (\<lambda>c. suit c = s) cs
      in if length suited_cards \<ge> 5 then Some (take 5 suited_cards) else flush_loop ss cs)"

definition check_flush :: "card list \<Rightarrow> card list option" where
  "check_flush cs = flush_loop Suit cs"

fun three_of_a_kind_loop :: "(rank \<times> nat) list \<Rightarrow> card list \<Rightarrow> card list option" where
  "three_of_a_kind_loop [] cs = None"
| "three_of_a_kind_loop ((r, cnt) # rcs) cs =
     (if cnt \<ge> 3
      then Some (take 3 (filter (\<lambda>c. rank c = r) cs) @ take 2 (filter (\<lambda>c. rank c \<noteq> r) cs))
      else three_of_a_kind_loop rcs cs)"

definition check_three_of_a_kind :: "card list \<Rightarrow> card list option" where
  "check_three_of_a_kind cs = three_of_a_kind_loop (Counter (map rank cs)) cs"

definition check_two_pair :: "card list \<Rightarrow> error + card list option" where
  "check_two_pair cs =
     (let pairs = map fst (filter (\<lambda>(r, cnt). cnt \<ge> 2) (Counter (map rank cs)))
      in if length pairs \<ge> 2
         then (let pair1_cards = take 2 (filter (\<lambda>c. rank c = pairs ! 0) cs);
                   pair2_cards = take 2 (filter (\<lambda>c. rank c = pairs ! 1) cs)
               in case find (\<lambda>c. rank c \<noteq> pairs ! 0 \<and> rank c \<noteq> pairs ! 1) cs of
                    None \<Rightarrow> Inl StopIteration
                  | Some kicker \<Rightarrow> Inr (Some (pair1_cards @ pair2_cards @ [kicker])))
         else Inr None)"

fun pair_loop :: "(rank \<times> nat) list \<Rightarrow> card list \<Rightarrow> card list option" where
  "pair_loop [] cs = None"
| "pair_loop ((r, cnt) # rcs) cs =
     (if cnt \<ge> 2
      then Some (take 2 (filter (\<lambda>c. rank c = r) cs) @ take 3 (filter (\<lambda>c. rank c \<noteq> r) cs))
      else pair_loop rcs cs)"

definition check_pair :: "card list \<Rightarrow> card list option" where
  "check_pair cs = pair_loop (Counter (map rank cs)) cs"

text \<open>
  The fallback result of \<^verbatim>\<open>_evaluate_cards\<close>, written out in the source at every
  failed length check and at the end:
  \<^verbatim>\<open>HandStrength(HandRank.HIGH_CARD, [list(Rank).index(c.rank) for c in sorted_cards[:5]])\<close>.
\<close>

definition high_card :: "card list \<Rightarrow> hand_strength" where
  "high_card sorted_cards = HandStrength HIGH_CARD (map card_key (take 5 sorted_cards))"

definition evaluate_cards :: "card list \<Rightarrow> error + hand_strength" where
  "evaluate_cards cs =
     (let sorted_cards = sorted_reverse card_key cs;
          straight_flush = check_straight_flush sorted_cards
      in if truthy straight_flush
         then (if length (the straight_flush) = 5
               then (if rank (the straight_flush ! 0) = ACE
                     then Inr (HandStrength ROYAL_FLUSH [])
                     else Inr (HandStrength STRAIGHT_FLUSH [card_key (the straight_flush ! 0)]))
               else Inr (high_card sorted_cards))
         else
      case check_four_of_a_kind sorted_cards of Inl e \<Rightarrow> Inl e | Inr four_kind \<Rightarrow>
      if truthy four_kind
      then (if length (the four_kind) = 4
            then Inr (HandStrength FOUR_OF_A_KIND [card_key (the four_kind ! 0)])
            else Inr (high_card sorted_cards))
      else
      let full_house = check_full_house sorted_cards
      in if truthy full_house
         then (if length (the full_house) = 5
               then Inr (HandStrength FULL_HOUSE [card_key (the full_house ! 0)])
               else Inr (high_card sorted_cards))
         else
      let flush = check_flush sorted_cards
      in if truthy flush
         then (if length (the flush) = 5
               then Inr (HandStrength FLUSH (map card_key (take 5 (the flush))))
               else Inr (high_card sorted_cards))
         else
      let straight = check_straight sorted_cards
      in if truthy straight
         then (if length (the straight) = 5
               then Inr (HandStrength STRAIGHT [card_key (the straight ! 0)])
               else Inr (high_card sorted_cards))
         else
      let three_kind = check_three_of_a_kind sorted_cards
      in if truthy three_kind
         then (if length (the three_kind) = 3
               then Inr (HandStrength THREE_OF_A_KIND [card_key (the three_kind ! 0)])
               else Inr (high_card sorted_cards))
         else
      case check_two_pair sorted_cards of Inl e \<Rightarrow> Inl e | Inr two_pair \<Rightarrow>
      if truthy two_pair
      then (if length (the two_pair) = 4
            then Inr (HandStrength TWO_PAIR (map card_key (take 4 (the two_pair))))
            else Inr (high_card sorted_cards))
      else
      let pair = check_pair sorted_cards
      in if truthy pair
         then (if length (the pair) = 2
               then Inr (HandStrength PAIR (map card_key (take 2 (the pair))))
               else Inr (high_card sorted_cards))
         else Inr (high_card sorted_cards))"

text \<open>
  The key by which \<^verbatim>\<open>_resolve_winners\<close> orders hands:
  \<^verbatim>\<open>lambda x: (x[1].rank.value, x[1].high_cards)\<close>. Python compares the tuples and the
  lists lexicographically, as the orders on pairs and lists do here.
\<close>

definition hand_key :: "hand_strength \<Rightarrow> nat \<times> nat list" where
  "hand_key h = (hand_rank_value (hs_rank h), high_cards h)"

section \<open>Floating-point arithmetic\<close>

text \<open>
  Python's \<^verbatim>\<open>float\<close> is the IEEE-754 double: 53 significant bits, least exponent
  of a bit \<open>-1074\<close>, every operation rounded to the nearest double, ties to the even
  significand. \<open>fl x\<close> is that rounding of the real number \<open>x\<close>:
  \<open>float_exponent x\<close> is the \<open>e\<close> with \<open>2 ^ e \<le> \<bar>x\<bar> < 2 ^ (e + 1)\<close>, and \<open>x\<close> is
  rounded to a multiple of \<open>2 ^ (e - 52)\<close> (of \<open>2 ^ -1074\<close> in the subnormal range).
  The infinities and NaN of the format are not values of the model, so a result beyond
  the largest double is rounded like any other; the two zeros are one.
\<close>

function ilog2 :: "nat \<Rightarrow> nat" where
  "ilog2 n = (if n < 2 then 0 else Suc (ilog2 (n div 2)))"
  by pat_completeness auto
termination
  by (relation "measure id") auto

definition pow2 :: "int \<Rightarrow> real" where
  "pow2 t = (if 0 \<le> t then 2 ^ nat t else 1 / 2 ^ nat (- t))"

definition float_exponent :: "real \<Rightarrow> int" where
  "float_exponent x =
     (if 1 \<le> \<bar>x\<bar> then int (ilog2 (nat \<lfloor>\<bar>x\<bar>\<rfloor>))
      else - int (Suc (ilog2 (nat \<lceil>1 / \<bar>x\<bar>\<rceil> - 1))))"

definition round_half_even :: "real \<Rightarrow> int" where
  "round_half_even x =
     (let f = \<lfloor>x\<rfloor>; d = x - of_int f
      in if d < 1 / 2 then f else if 1 / 2 < d then f + 1 else if even f then f else f + 1)"

definition fl :: "real \<Rightarrow> real" where
  "fl x =
     (if x = 0 then 0
      else (let t = max (float_exponent x - 52) (- 1074)
            in of_int (round_half_even (x / pow2 t)) * pow2 t))"

text \<open>
  Amounts on which the chip arithmetic is exact: \<open>on_grid k x\<close> says that \<open>x\<close> is a whole
  multiple of \<open>2 ^ -k\<close> and less than \<open>2 ^ 51\<close> such units in magnitude. For \<open>k = 0\<close> these
  are the whole numbers of chips below \<open>2 ^ 51\<close>.
\<close>

definition whole :: "real \<Rightarrow> bool" where
  "whole y \<longleftrightarrow> of_int \<lfloor>y\<rfloor> = y"

definition on_grid :: "nat \<Rightarrow> real \<Rightarrow> bool" where
  "on_grid k x \<longleftrightarrow> whole (x * 2 ^ k) \<and> \<bar>x * 2 ^ k\<bar> < 2 ^ 51"

section \<open>Players and the decision policy (src/src/player.py)\<close>

text \<open>
  Chip amounts (\<^verbatim>\<open>stack\<close>, \<^verbatim>\<open>current_bet\<close>, \<^verbatim>\<open>pot\<close>, blinds) are Python floats, held
  here as the real numbers they denote; every \<^verbatim>\<open>+\<close>, \<^verbatim>\<open>-\<close>, \<^verbatim>\<open>*\<close> and \<^verbatim>\<open>/\<close> of the source
  is followed by \<open>fl\<close>, and a literal such as \<^verbatim>\<open>0.1\<close> is \<open>fl 0.1\<close> (the literals
  \<^verbatim>\<open>0.75\<close> and \<^verbatim>\<open>0.5\<close> are doubles already). The field \<^verbatim>\<open>num_players\<close> of a player is
  called \<open>p_num_players\<close>, since \<open>num_players\<close> is the field of the game.
\<close>

record player =
  name :: string
  stack :: real
  hole_cards :: "card list"
  current_bet :: real
  is_active :: bool
  position :: string
  position_index :: int
  folded :: bool
  p_num_players :: nat

definition Player :: "string \<Rightarrow> real \<Rightarrow> player" where
  "Player n s =
     \<lparr>name = n, stack = s, hole_cards = [], current_bet = 0, is_active = True,
      position = ''BTN'', position_index = - 1, folded = False, p_num_players = 6\<rparr>"

definition player_reset_hand :: "player \<Rightarrow> player" where
  "player_reset_hand p = p\<lparr>hole_cards := [], current_bet := 0, is_active := True, folded := False\<rparr>"

definition receive_card :: "player \<Rightarrow> card \<Rightarrow> player" where
  "receive_card p c = p\<lparr>hole_cards := hole_cards p @ [c]\<rparr>"

text \<open>
  \<^verbatim>\<open>evaluate_hand\<close>: without community cards (\<^verbatim>\<open>None\<close> or the empty list, both falsy)
  the pre-flop heuristic reads \<^verbatim>\<open>ranks[0]\<close> and \<^verbatim>\<open>ranks[1]\<close>, which raises
  \<^verbatim>\<open>IndexError\<close> for fewer than two hole cards.
\<close>

definition evaluate_hand :: "player \<Rightarrow> card list \<Rightarrow> error + hand_strength" where
  "evaluate_hand p community_cards =
     (if community_cards = []
      then (let ranks = map rank (hole_cards p)
            in if length ranks < 2 then Inl IndexError
               else if ranks ! 0 = ranks ! 1
               then (let rank_value = rank_index (ranks ! 0)
                     in if rank_value \<ge> rank_index TEN
                        then Inr (HandStrength PAIR [rank_value])
                        else Inr (HandStrength HIGH_CARD [rank_value]))
               else (let high = Max (set (map rank_index ranks))
                     in if high \<ge> rank_index JACK
                        then Inr (HandStrength HIGH_CARD [high])
                        else Inr (HandStrength HIGH_CARD [0])))
      else evaluate_cards (hole_cards p @ community_cards))"

definition position_ranks :: "(string \<times> nat) list" where
  "position_ranks =
     [(''BTN'', 5), (''CO'', 4), (''MP'', 3), (''UTG'', 2), (''BB'', 1), (''SB'', 0)]"

definition preflop_strategy :: "player \<Rightarrow> real \<Rightarrow> real \<Rightarrow> bool \<Rightarrow> string \<times> real" where
  "preflop_strategy p to_call pot is_late_position =
     (let has_pair = (length (hole_cards p) = 2
                      \<and> rank (hole_cards p ! 0) = rank (hole_cards p ! 1));
          high = filter (\<lambda>c. rank c \<in> {ACE, KING, QUEEN}) (hole_cards p)
      in if has_pair
         then (if to_call = 0 then (''raise'', min (fl (pot * 0.75)) (stack p))
               else if to_call \<le> fl (stack p * fl 0.1) then (''call'', to_call)
               else (''fold'', 0))
         else if length high \<ge> 1
         then (if is_late_position
               then (if to_call = 0 then (''raise'', min (fl (pot * 0.5)) (stack p))
                     else if to_call \<le> fl (stack p * fl 0.05) then (''call'', to_call)
                     else (''fold'', 0))
               else (''fold'', 0))
         else (if to_call = 0 then (''call'', 0) else (''fold'', 0)))"

definition postflop_strategy ::
  "player \<Rightarrow> hand_strength \<Rightarrow> real \<Rightarrow> real \<Rightarrow> bool \<Rightarrow> string \<times> real" where
  "postflop_strategy p hand to_call pot is_late_position =
     (if hand_rank_value (hs_rank hand) \<ge> hand_rank_value THREE_OF_A_KIND
      then (if to_call = 0 then (''raise'', min pot (stack p))
            else if to_call \<le> fl (stack p * fl 0.3) then (''call'', to_call)
            else (''fold'', 0))
      else if hand_rank_value (hs_rank hand) \<ge> hand_rank_value PAIR \<and> is_late_position
      then (if to_call = 0 then (''raise'', min (fl (pot * 0.5)) (stack p))
            else if to_call \<le> fl (stack p * fl 0.1) then (''call'', to_call)
            else (''fold'', 0))
      else (if to_call = 0 then (''call'', 0)
            else if to_call \<le> fl (stack p * fl 0.05) then (''call'', to_call)
            else (''fold'', 0)))"

text \<open>
  \<^verbatim>\<open>make_decision\<close> evaluates the hand before it looks at the street, so an exception of
  the evaluator is an exception of the decision.
\<close>

definition make_decision ::
  "player \<Rightarrow> real \<Rightarrow> real \<Rightarrow> card list \<Rightarrow> error + string \<times> real" where
  "make_decision p to_call pot community_cards =
     (if to_call > stack p then Inr (''fold'', 0)
      else case evaluate_hand p community_cards of
             Inl e \<Rightarrow> Inl e
           | Inr hand_strength \<Rightarrow>
               (let position_strength =
                      (case map_of position_ranks (position p) of None \<Rightarrow> 0 | Some v \<Rightarrow> v);
                    is_late_position = (position_strength \<ge> 4)
                in if community_cards = []
                   then Inr (preflop_strategy p to_call pot is_late_position)
                   else Inr (postflop_strategy p hand_strength to_call pot is_late_position)))"

section \<open>The game (src/src/game.py)\<close>

text \<open>
  The state of a \<^verbatim>\<open>PokerGame\<close>. Its field \<^verbatim>\<open>current_bet\<close> is called \<open>table_bet\<close>, since
  \<open>current_bet\<close> is the field of a player. The statistics, the console and the event
  callback are left out: the game only writes to them, no modelled operation reads them,
  and the callbacks registered in this repository do not touch the game. Where building
  an event can raise (\<^verbatim>\<open>self.community_cards[3]\<close>), the exception is kept.
\<close>

record game =
  num_players :: nat
  initial_stack :: real
  small_blind :: real
  big_blind :: real
  four_card_flop :: bool
  deck :: deck
  players :: "player list"
  community_cards :: "card list"
  pot :: real
  table_bet :: real
  button_pos :: nat

text \<open>\<^verbatim>\<open>str(n)\<close> for a natural number, used in \<^verbatim>\<open>f"Player {i+1}"\<close> and \<^verbatim>\<open>f"MP{pos - 4}"\<close>.\<close>

definition digit_char :: "nat \<Rightarrow> char" where
  "digit_char d = char_of (48 + d)"

function str_nat :: "nat \<Rightarrow> string" where
  "str_nat n = (if n < 10 then [digit_char n] else str_nat (n div 10) @ [digit_char (n mod 10)])"
  by pat_completeness auto
termination
  by (relation "measure id") auto

definition PokerGame :: "nat \<Rightarrow> real \<Rightarrow> real \<Rightarrow> real \<Rightarrow> bool \<Rightarrow> game" where
  "PokerGame n istack sb bb four =
     \<lparr>num_players = n, initial_stack = istack, small_blind = sb, big_blind = bb,
      four_card_flop = four, deck = Deck,
      players = map (\<lambda>i. Player (''Player '' @ str_nat (i + 1)) istack) [0..<n],
      community_cards = [], pot = 0, table_bet = 0, button_pos = 0\<rparr>"

definition position_names :: "string list" where
  "position_names = [''BTN'', ''SB'', ''BB'', ''UTG'', ''MP'', ''CO'']"

text \<open>
  The two loops that label the seats. Both compute
  \<^verbatim>\<open>pos = (i - self.button_pos) % self.num_players\<close> (never negative in Python) for each
  seat \<open>i\<close>. The loop in \<^verbatim>\<open>reset_hand\<close> tests \<^verbatim>\<open>pos < len(position_names)\<close> and labels the
  other seats \<^verbatim>\<open>f"MP{pos - 4}"\<close>; the loop in \<^verbatim>\<open>run_simulation\<close> indexes
  \<^verbatim>\<open>position_names[pos]\<close> without a test.
\<close>

definition seat_pos :: "nat \<Rightarrow> nat \<Rightarrow> nat \<Rightarrow> nat" where
  "seat_pos i button n = nat ((int i - int button) mod int n)"

definition reset_hand_label :: "nat \<Rightarrow> error + string" where
  "reset_hand_label pos =
     (if pos < length position_names then Inr (position_names ! pos)
      else Inr (''MP'' @ str_nat (pos - 4)))"

definition run_simulation_label :: "nat \<Rightarrow> error + string" where
  "run_simulation_label pos =
     (if pos < length position_names then Inr (position_names ! pos) else Inl IndexError)"

fun set_positions ::
  "(nat \<Rightarrow> error + string) \<Rightarrow> nat \<Rightarrow> nat \<Rightarrow> nat list \<Rightarrow> player list \<Rightarrow> error + player list" where
  "set_positions label button n [] ps = Inr ps"
| "set_positions label button n (i # seats) ps =
     (case label (seat_pos i button n) of
        Inl e \<Rightarrow> Inl e
      | Inr l \<Rightarrow>
          if i < length ps then set_positions label button n seats (ps[i := (ps ! i)\<lparr>position := l\<rparr>])
          else Inl IndexError)"

definition rebuy :: "real \<Rightarrow> player \<Rightarrow> player" where
  "rebuy istack p =
     (let p' = player_reset_hand p in if stack p' \<le> 0 then p'\<lparr>stack := istack\<rparr> else p')"

definition reset_hand :: "game \<Rightarrow> error + game" where
  "reset_hand g =
     (if num_players g = 0 then Inl ZeroDivisionError
      else (let button = (button_pos g + 1) mod num_players g
            in case set_positions reset_hand_label button (num_players g) [0..<num_players g]
                      (players g) of
                 Inl e \<Rightarrow> Inl e
               | Inr ps \<Rightarrow>
                   Inr (g\<lparr>deck := Deck, community_cards := [], pot := 0, table_bet := 0,
                          button_pos := button, players := map (rebuy (initial_stack g)) ps\<rparr>)))"

text \<open>
  Dealing. \<^verbatim>\<open>if card:\<close> is true for every card (the class defines neither \<^verbatim>\<open>__bool__\<close>
  nor \<^verbatim>\<open>__len__\<close>), so it only skips the \<^verbatim>\<open>None\<close> of an empty deck.
\<close>

fun deal_round :: "deck \<Rightarrow> player list \<Rightarrow> deck \<times> player list" where
  "deal_round d [] = (d, [])"
| "deal_round d (p # ps) =
     (if is_active p
      then (case draw d of
              (None, d') \<Rightarrow> (let (d'', ps') = deal_round d' ps in (d'', p # ps'))
            | (Some c, d') \<Rightarrow> (let (d'', ps') = deal_round d' ps in (d'', receive_card p c # ps')))
      else (let (d', ps') = deal_round d ps in (d', p # ps')))"

definition deal_hole_cards :: "(nat \<Rightarrow> nat) \<Rightarrow> game \<Rightarrow> game" where
  "deal_hole_cards rnd g =
     (let (d1, ps1) = deal_round (shuffle rnd (deck g)) (players g);
          (d2, ps2) = deal_round d1 ps1
      in g\<lparr>deck := d2, players := ps2\<rparr>)"

definition deal_community_card :: "game \<Rightarrow> game" where
  "deal_community_card g =
     (case draw (deck g) of
        (None, d) \<Rightarrow> g\<lparr>deck := d\<rparr>
      | (Some c, d) \<Rightarrow> g\<lparr>deck := d, community_cards := community_cards g @ [c]\<rparr>)"

definition deal_flop :: "game \<Rightarrow> game" where
  "deal_flop g =
     ((deal_community_card ^^ (if four_card_flop g then 4 else 3)) g)"

definition deal_turn :: "game \<Rightarrow> game" where
  "deal_turn g = deal_community_card g"

definition deal_river :: "game \<Rightarrow> game" where
  "deal_river g = deal_community_card g"

text \<open>
  The betting round. One pass of the outer \<^verbatim>\<open>while True\<close> loop is: skip to the next
  active seat, ask that player, apply the action, test the two exits. The inner loop
  probes the seat it starts at and then the seats after it modulo \<open>num_players\<close>; after
  \<open>num_players + 1\<close> probes without an active seat and without an exception it has seen
  every seat it can reach, and the Python loop would spin forever: that is \<open>None\<close>.
\<close>

fun next_active_loop :: "nat \<Rightarrow> game \<Rightarrow> nat \<Rightarrow> (error + nat) option" where
  "next_active_loop 0 g current_pos = None"
| "next_active_loop (Suc k) g current_pos =
     (if current_pos \<ge> length (players g) then Some (Inl IndexError)
      else if is_active (players g ! current_pos) then Some (Inr current_pos)
      else if num_players g = 0 then Some (Inl ZeroDivisionError)
      else next_active_loop k g ((current_pos + 1) mod num_players g))"

definition next_active :: "game \<Rightarrow> nat \<Rightarrow> (error + nat) option" where
  "next_active g current_pos = next_active_loop (Suc (num_players g)) g current_pos"

definition apply_action :: "nat \<Rightarrow> string \<Rightarrow> real \<Rightarrow> game \<Rightarrow> game" where
  "apply_action pos action amount g =
     (let player = players g ! pos
      in if action = ''fold''
         then g\<lparr>players := (players g)[pos := player\<lparr>is_active := False\<rparr>]\<rparr>
         else if action = ''call''
         then (let call_amount = fl (table_bet g - current_bet player)
               in g\<lparr>players := (players g)[pos := player\<lparr>stack := fl (stack player - call_amount),
                                                         current_bet := table_bet g\<rparr>],
                     pot := fl (pot g + call_amount)\<rparr>)
         else if action = ''raise''
         then (let raise_amount = fl (amount - current_bet player)
               in g\<lparr>players := (players g)[pos := player\<lparr>stack := fl (stack player - raise_amount),
                                                         current_bet := amount\<rparr>],
                     pot := fl (pot g + raise_amount), table_bet := amount\<rparr>)
         else g)"

definition all_called :: "game \<Rightarrow> bool" where
  "all_called g = list_all (\<lambda>p. \<not> is_active p \<or> current_bet p = table_bet g) (players g)"

text \<open>
  The outer loop takes fuel: \<open>None\<close> means that the loop has not returned after that many
  passes (the source loop has no bound of its own).
\<close>

fun betting_loop :: "nat \<Rightarrow> nat \<Rightarrow> nat \<Rightarrow> game \<Rightarrow> (error + bool \<times> game) option" where
  "betting_loop 0 start_pos current_pos g = None"
| "betting_loop (Suc fuel) start_pos current_pos g =
     (case next_active g current_pos of
        None \<Rightarrow> None
      | Some (Inl e) \<Rightarrow> Some (Inl e)
      | Some (Inr pos) \<Rightarrow>
          (let player = players g ! pos
           in case make_decision player (fl (table_bet g - current_bet player)) (pot g)
                     (community_cards g) of
                Inl e \<Rightarrow> Some (Inl e)
              | Inr (action, amount) \<Rightarrow>
                  (let g' = apply_action pos action amount g
                   in if length (filter is_active (players g')) \<le> 1 then Some (Inr (False, g'))
                      else if all_called g' \<and> pos = start_pos then Some (Inr (True, g'))
                      else if num_players g' = 0 then Some (Inl ZeroDivisionError)
                      else betting_loop fuel start_pos ((pos + 1) mod num_players g') g')))"

definition betting_round :: "nat \<Rightarrow> game \<Rightarrow> (error + bool \<times> game) option" where
  "betting_round fuel g =
     (if length (filter is_active (players g)) \<le> 1 then Some (Inr (False, g))
      else if num_players g = 0 then Some (Inl ZeroDivisionError)
      else (let start_pos = (button_pos g + 3) mod num_players g
            in betting_loop fuel start_pos start_pos g))"

text \<open>Posting one blind: the stack is debited, the bet recorded and the pot credited.\<close>

definition post_blind :: "nat \<Rightarrow> real \<Rightarrow> game \<Rightarrow> game" where
  "post_blind pos blind g =
     g\<lparr>players := (players g)[pos := (players g ! pos)\<lparr>stack := fl (stack (players g ! pos) - blind),
                                                       current_bet := blind\<rparr>],
       pot := fl (pot g + blind)\<rparr>"

definition post_blinds :: "game \<Rightarrow> error + game" where
  "post_blinds g =
     (if num_players g = 0 then Inl ZeroDivisionError
      else (let sb_pos = (button_pos g + 1) mod num_players g;
                bb_pos = (button_pos g + 2) mod num_players g
            in if sb_pos \<ge> length (players g) then Inl IndexError
               else (let g1 = post_blind sb_pos (small_blind g) g
                     in if bb_pos \<ge> length (players g1) then Inl IndexError
                        else Inr ((post_blind bb_pos (big_blind g1) g1)
                                    \<lparr>table_bet := big_blind g1\<rparr>))))"

text \<open>
  \<^verbatim>\<open>_resolve_winners\<close>. Players are identified by their seat, the index in
  \<^verbatim>\<open>self.players\<close>; the result pairs each winner's seat with the winnings.
\<close>

definition active_seats :: "game \<Rightarrow> nat list" where
  "active_seats g = filter (\<lambda>i. is_active (players g ! i)) [0..<length (players g)]"

fun evaluate_hands :: "game \<Rightarrow> nat list \<Rightarrow> error + (nat \<times> hand_strength) list" where
  "evaluate_hands g [] = Inr []"
| "evaluate_hands g (i # seats) =
     (case evaluate_hand (players g ! i) (community_cards g) of
        Inl e \<Rightarrow> Inl e
      | Inr h \<Rightarrow>
          (case evaluate_hands g seats of
             Inl e \<Rightarrow> Inl e
           | Inr rest \<Rightarrow> Inr ((i, h) # rest)))"

definition credit :: "real \<Rightarrow> player list \<Rightarrow> nat \<Rightarrow> player list" where
  "credit winnings ps i = ps[i := (ps ! i)\<lparr>stack := fl (stack (ps ! i) + winnings)\<rparr>]"

definition resolve_winners :: "game \<Rightarrow> error + (nat \<times> real) list \<times> game" where
  "resolve_winners g =
     (let active_players = active_seats g
      in if length active_players = 0 then Inr ([], g)
         else if length active_players = 1
         then (let winner = active_players ! 0; winnings = pot g
               in Inr ([(winner, winnings)], g\<lparr>players := credit winnings (players g) winner\<rparr>))
         else (case evaluate_hands g active_players of
                 Inl e \<Rightarrow> Inl e
               | Inr hands \<Rightarrow>
                   (let player_hands = sorted_reverse (\<lambda>x. hand_key (snd x)) hands;
                        best_hand_rank = hand_rank_value (hs_rank (snd (player_hands ! 0)));
                        best_high_cards = high_cards (snd (player_hands ! 0));
                        winners = map fst (takeWhile
                          (\<lambda>x. hand_rank_value (hs_rank (snd x)) = best_hand_rank
                                \<and> high_cards (snd x) = best_high_cards) player_hands)
                    in if length winners = 0 then Inl ZeroDivisionError
                       else (let winnings_per_player = fl (pot g / real (length winners))
                             in Inr (map (\<lambda>w. (w, winnings_per_player)) winners,
                                     g\<lparr>players := foldl (credit winnings_per_player) (players g)
                                                     winners\<rparr>)))))"

text \<open>
  \<^verbatim>\<open>play_hand\<close>, street by street. Each betting round gets the same fuel. After the river
  the winners are resolved whether the last round ended early or not. The events for the
  turn and the river read \<^verbatim>\<open>self.community_cards[3]\<close> and \<^verbatim>\<open>self.community_cards[4]\<close>.
\<close>

definition play_river :: "nat \<Rightarrow> game \<Rightarrow> (error + (nat \<times> real) list \<times> game) option" where
  "play_river fuel g =
     (let g1 = deal_river g
      in if length (community_cards g1) \<le> 4 then Some (Inl IndexError)
         else case betting_round fuel g1 of
                None \<Rightarrow> None
              | Some (Inl e) \<Rightarrow> Some (Inl e)
              | Some (Inr (continue, g2)) \<Rightarrow> Some (resolve_winners g2))"

definition play_turn :: "nat \<Rightarrow> game \<Rightarrow> (error + (nat \<times> real) list \<times> game) option" where
  "play_turn fuel g =
     (let g1 = deal_turn g
      in if length (community_cards g1) \<le> 3 then Some (Inl IndexError)
         else case betting_round fuel g1 of
                None \<Rightarrow> None
              | Some (Inl e) \<Rightarrow> Some (Inl e)
              | Some (Inr (continue, g2)) \<Rightarrow>
                  if continue then play_river fuel g2 else Some (resolve_winners g2))"

definition play_flop :: "nat \<Rightarrow> game \<Rightarrow> (error + (nat \<times> real) list \<times> game) option" where
  "play_flop fuel g =
     (case betting_round fuel (deal_flop g) of
        None \<Rightarrow> None
      | Some (Inl e) \<Rightarrow> Some (Inl e)
      | Some (Inr (continue, g2)) \<Rightarrow>
          if continue then play_turn fuel g2 else Some (resolve_winners g2))"

definition play_hand ::
  "nat \<Rightarrow> (nat \<Rightarrow> nat) \<Rightarrow> game \<Rightarrow> (error + (nat \<times> real) list \<times> game) option" where
  "play_hand fuel rnd g =
     (case reset_hand g of
        Inl e \<Rightarrow> Some (Inl e)
      | Inr g0 \<Rightarrow>
          (case post_blinds g0 of
             Inl e \<Rightarrow> Some (Inl e)
           | Inr g1 \<Rightarrow>
               (case betting_round fuel (deal_hole_cards rnd g1) of
                  None \<Rightarrow> None
                | Some (Inl e) \<Rightarrow> Some (Inl e)
                | Some (Inr (continue, g2)) \<Rightarrow>
                    if continue then play_flop fuel g2 else Some (resolve_winners g2))))"

text \<open>
  The record that \<^verbatim>\<open>_log_hand_results\<close> appends to the log file, without the rendering of
  cards as strings and without the file: the snapshot of every player carries the
  \<^verbatim>\<open>folded\<close> and \<^verbatim>\<open>is_active\<close> fields as they are after the hand.
\<close>

record player_entry =
  entry_name :: string
  entry_hole_cards :: "card list"
  entry_stack :: real
  entry_folded :: bool
  entry_is_active :: bool

record hand_log =
  log_community_cards :: "card list"
  log_pot_size :: real
  log_winners :: "(string \<times> real \<times> card list) list"
  log_players :: "player_entry list"

definition log_hand_results :: "(nat \<times> real) list \<Rightarrow> game \<Rightarrow> hand_log" where
  "log_hand_results winners g =
     \<lparr>log_community_cards = community_cards g,
      log_pot_size = pot g,
      log_winners = map (\<lambda>(w, winnings). (name (players g ! w), winnings,
                                             hole_cards (players g ! w))) winners,
      log_players = map (\<lambda>p. \<lparr>entry_name = name p, entry_hole_cards = hole_cards p,
                               entry_stack = stack p, entry_folded = folded p,
                               entry_is_active = is_active p\<rparr>) (players g)\<rparr>"

text \<open>
  \<^verbatim>\<open>run_simulation\<close>: for each hand the button is rotated and the seats are labelled by the
  unguarded loop, then the hand is played (which rotates and labels again in
  \<^verbatim>\<open>reset_hand\<close>) and logged. \<open>rnds k\<close> is the random source of the \<open>k\<close>-th remaining
  hand.
\<close>

definition run_simulation_positions :: "game \<Rightarrow> error + game" where
  "run_simulation_positions g =
     (if num_players g = 0 then Inl ZeroDivisionError
      else (let button = (button_pos g + 1) mod num_players g
            in case set_positions run_simulation_label button (num_players g)
                      [0..<num_players g] (players g) of
                 Inl e \<Rightarrow> Inl e
               | Inr ps \<Rightarrow> Inr (g\<lparr>button_pos := button, players := ps\<rparr>)))"

fun run_simulation ::
  "nat \<Rightarrow> (nat \<Rightarrow> nat \<Rightarrow> nat) \<Rightarrow> nat \<Rightarrow> game \<Rightarrow> (error + hand_log list \<times> game) option" where
  "run_simulation fuel rnds 0 g = Some (Inr ([], g))"
| "run_simulation fuel rnds (Suc num_hands) g =
     (case run_simulation_positions g of
        Inl e \<Rightarrow> Some (Inl e)
      | Inr g1 \<Rightarrow>
          (case play_hand fuel (rnds num_hands) g1 of
             None \<Rightarrow> None
           | Some (Inl e) \<Rightarrow> Some (Inl e)
           | Some (Inr (winners, g2)) \<Rightarrow>
               (case run_simulation fuel rnds num_hands g2 of
                  None \<Rightarrow> None
                | Some (Inl e) \<Rightarrow> Some (Inl e)
                | Some (Inr (logs, g3)) \<Rightarrow> Some (Inr (log_hand_results winners g2 # logs, g3)))))"

text \<open>
  The chips in play: the sum of all players' stacks plus the pot, as a real number (the
  exact sum of the floats, not a float sum).
\<close>

definition chips :: "game \<Rightarrow> real" where
  "chips g = sum_list (map stack (players g)) + pot g"

text \<open>
  One movement of chips: between the states \<open>g\<close> and \<open>g'\<close> the amount \<open>x\<close> is taken from
  the stack at seat \<open>pos\<close> and added to the pot, both results rounded, and no other stack
  changes.
\<close>

definition debit_credit :: "nat \<Rightarrow> real \<Rightarrow> game \<Rightarrow> game \<Rightarrow> bool" where
  "debit_credit pos x g g' \<longleftrightarrow>
     map stack (players g') = (map stack (players g))[pos := fl (stack (players g ! pos) - x)]
     \<and> pot g' = fl (pot g + x)"

text \<open>No player of the game has the \<^verbatim>\<open>folded\<close> flag set.\<close>

definition no_folded :: "game \<Rightarrow> bool" where
  "no_folded g = list_all (\<lambda>p. \<not> folded p) (players g)"

section \<open>Properties of the deck\<close>

lemma mset_shuffle_loop: "i < length xs \<Longrightarrow> mset (shuffle_loop rnd i xs) = mset xs"
proof (induction i arbitrary: xs)
  case 0
  then show ?case by simp
next
  case (Suc i)
  let ?j = "rnd (Suc i) mod (Suc (Suc i))"
  have "?j < Suc (Suc i)" by simp
  then have j: "?j < length xs" using Suc.prems by linarith
  have "mset (xs[Suc i := xs ! ?j, ?j := xs ! Suc i]) = mset xs"
    using mset_swap [OF j Suc.prems] by simp
  moreover have "i < length (xs[Suc i := xs ! ?j, ?j := xs ! Suc i])"
    using Suc.prems by simp
  ultimately show ?case using Suc.IH by (simp add: Let_def)
qed

lemma mset_shuffle: "mset (cards (shuffle rnd d)) = mset (cards d)"
proof (cases "cards d = []")
  case True
  then show ?thesis by (simp add: shuffle_def)
next
  case False
  then have "length (cards d) - 1 < length (cards d)" by (cases "cards d") auto
  then show ?thesis by (simp add: shuffle_def mset_shuffle_loop)
qed

lemma all_cards: "(c::card) \<in> set create_deck"
  by (cases c; cases "rank c"; cases "suit c")
     (simp_all add: create_deck_def Rank_def Suit_def Card_def)

lemma distinct_create_deck: "distinct create_deck"
  by (simp add: create_deck_def Rank_def Suit_def Card_def)

lemma length_create_deck: "length create_deck = 52"
  by (simp add: create_deck_def Rank_def Suit_def)

lemma UNIV_card: "(UNIV :: card set) = set create_deck"
  using all_cards by auto

lemma card_UNIV_card: "card (UNIV :: card set) = 52"
  using distinct_card [OF distinct_create_deck] length_create_deck by (simp add: UNIV_card)

lemma deck_inv_Deck: "deck_inv Deck"
  using all_cards by (auto simp: deck_inv_def Deck_def distinct_create_deck)

lemma deck_inv_shuffle:
  assumes inv: "deck_inv d"
  shows "deck_inv (shuffle rnd d)"
proof -
  have m: "mset (cards (shuffle rnd d)) = mset (cards d)" by (rule mset_shuffle)
  have s: "set (cards (shuffle rnd d)) = set (cards d)" using m by (rule mset_eq_setD)
  have dist: "distinct (cards (shuffle rnd d)) = distinct (cards d)"
    using m by (rule mset_eq_imp_distinct_iff)
  have disc: "discarded (shuffle rnd d) = discarded d" by (simp add: shuffle_def)
  show ?thesis using inv unfolding deck_inv_def s dist disc .
qed

lemma deck_inv_draw:
  assumes inv: "deck_inv d"
  shows "deck_inv (snd (draw d))"
proof (cases "cards d = []")
  case True
  then show ?thesis using inv by (simp add: draw_def)
next
  case False
  then obtain ys y where xs: "cards d = ys @ [y]" by (meson rev_exhaust)
  show ?thesis using inv by (auto simp: draw_def deck_inv_def xs)
qed

lemma deck_inv_deal: "deck_inv d \<Longrightarrow> deck_inv (snd (deal_specific_card r s d))"
  by (auto simp: deal_specific_card_def deck_inv_def Let_def)

lemma deck_inv_reset: "deck_inv (reset rnd d)"
proof -
  have "deck_inv (d\<lparr>cards := create_deck, discarded := {}\<rparr>)"
    using all_cards by (auto simp: deck_inv_def distinct_create_deck)
  then show ?thesis unfolding reset_def by (rule deck_inv_shuffle)
qed

lemma deck_inv_step: "deck_inv d \<Longrightarrow> deck_inv (deck_step d x)"
  by (cases x) (simp_all add: deck_inv_shuffle deck_inv_draw deck_inv_deal deck_inv_reset)

lemma deck_inv_foldl: "deck_inv d \<Longrightarrow> deck_inv (foldl deck_step d ops)"
  by (induction ops arbitrary: d) (simp_all add: deck_inv_step)

lemma deck_inv_count:
  assumes "deck_inv d"
  shows "remaining d + card (discarded d) = 52"
proof -
  have "finite (UNIV :: card set)" unfolding UNIV_card by (rule finite_set)
  then have fin: "finite (discarded d)" by (rule rev_finite_subset) simp
  have "card (set (cards d) \<union> discarded d) = card (set (cards d)) + card (discarded d)"
    using assms fin by (intro card_Un_disjoint) (auto simp: deck_inv_def)
  moreover have "card (set (cards d)) = length (cards d)"
    using assms by (simp add: deck_inv_def distinct_card)
  ultimately show ?thesis using assms card_UNIV_card by (simp add: deck_inv_def remaining_def)
qed

text \<open>
  Claim C6. A deck is constructed and then any sequence of \<^verbatim>\<open>shuffle\<close>, \<^verbatim>\<open>draw\<close>,
  \<^verbatim>\<open>deal_specific_card\<close> and \<^verbatim>\<open>reset\<close> calls is made on it, with any random choices
  in the shuffles. Afterwards the number of remaining cards plus the size of the discard
  set is 52, no card is both remaining and discarded, and no card occurs twice among the
  remaining cards.
\<close>

theorem deck_invariant:
  "remaining (run_deck ops) + card (discarded (run_deck ops)) = 52
   \<and> set (cards (run_deck ops)) \<inter> discarded (run_deck ops) = {}
   \<and> distinct (cards (run_deck ops))"
proof -
  have inv: "deck_inv (run_deck ops)"
    unfolding run_deck_def using deck_inv_Deck by (rule deck_inv_foldl)
  show ?thesis using inv deck_inv_count [OF inv] by (simp add: deck_inv_def)
qed

text \<open>
  Claim C9. When the card named by a rank and a suit is not among the remaining cards of
  the deck (for instance because it was drawn before), \<^verbatim>\<open>deal_specific_card\<close> returns
  \<^verbatim>\<open>None\<close> and the deck, that is its remaining cards and its discard set, is unchanged.
\<close>

theorem deal_specific_card_not_found:
  "Card r s \<notin> set (cards d) \<Longrightarrow> deal_specific_card r s d = (None, d)"
  by (simp add: deal_specific_card_def)

text \<open>The last card of a fresh deck is the ace of spades; once drawn it cannot be dealt.\<close>

theorem deal_specific_card_not_found_witness:
  "Card ACE SPADES \<notin> set (cards (snd (draw Deck)))
   \<and> deal_specific_card ACE SPADES (snd (draw Deck)) = (None, snd (draw Deck))"
proof -
  have h: "Card ACE SPADES \<notin> set (cards (snd (draw Deck)))"
    by (simp add: draw_def Deck_def create_deck_def Rank_def Suit_def Card_def)
  show ?thesis using h deal_specific_card_not_found [OF h] by simp
qed

section \<open>Properties of the hand evaluator\<close>

subsection \<open>Counter\<close>

lemma map_of_counter_add:
  "map_of (counter_add x acc) = (map_of acc)(x \<mapsto> (case map_of acc x of None \<Rightarrow> 1 | Some c \<Rightarrow> Suc c))"
  by (induction acc) (auto simp: fun_eq_iff)

lemma keys_counter_add:
  "map fst (counter_add x acc) = (if x \<in> set (map fst acc) then map fst acc else map fst acc @ [x])"
  by (induction acc) force+

lemma distinct_counter_add:
  "distinct (map fst acc) \<Longrightarrow> distinct (map fst (counter_add x acc))"
  by (simp add: keys_counter_add)

lemma counter_foldl:
  "map_of (foldl (\<lambda>acc x. counter_add x acc) acc xs) k =
     (case map_of acc k of
        None \<Rightarrow> if k \<in> set xs then Some (count_list xs k) else None
      | Some c \<Rightarrow> Some (c + count_list xs k))"
proof (induction xs arbitrary: acc)
  case Nil
  then show ?case by (simp split: option.splits)
next
  case (Cons x xs)
  have "map_of (foldl (\<lambda>acc x. counter_add x acc) (counter_add x acc) xs) k =
     (case map_of (counter_add x acc) k of
        None \<Rightarrow> if k \<in> set xs then Some (count_list xs k) else None
      | Some c \<Rightarrow> Some (c + count_list xs k))"
    by (rule Cons.IH)
  then show ?case
    by (simp add: map_of_counter_add split: option.splits)
qed

lemma distinct_counter_foldl:
  "distinct (map fst acc) \<Longrightarrow> distinct (map fst (foldl (\<lambda>acc x. counter_add x acc) acc xs))"
  by (induction xs arbitrary: acc) (simp_all add: distinct_counter_add)

lemma map_of_Counter:
  "map_of (Counter xs) k = (if k \<in> set xs then Some (count_list xs k) else None)"
  by (simp add: Counter_def counter_foldl)

lemma distinct_Counter: "distinct (map fst (Counter xs))"
  by (simp add: Counter_def distinct_counter_foldl)

lemma Counter_item:
  "(k, c) \<in> set (Counter xs) \<longleftrightarrow> k \<in> set xs \<and> c = count_list xs k"
proof -
  have "(k, c) \<in> set (Counter xs) \<longleftrightarrow> map_of (Counter xs) k = Some c"
    using distinct_Counter [of xs] by simp
  then show ?thesis by (auto simp: map_of_Counter)
qed

lemma count_list_rank: "count_list (map rank cs) r = length (filter (\<lambda>c. rank c = r) cs)"
  by (induction cs) auto

subsection \<open>Lengths of the detectors' results\<close>

lemma four_loop_length:
  "four_of_a_kind_loop rcs cs = Inr (Some xs) \<Longrightarrow>
   (\<And>r n. (r, n) \<in> set rcs \<Longrightarrow> n = length (filter (\<lambda>c. rank c = r) cs)) \<Longrightarrow> length xs = 5"
proof (induction rcs)
  case Nil
  then show ?case by simp
next
  case (Cons a rcs)
  obtain r n where a: "a = (r, n)" by (cases a)
  show ?case
  proof (cases "n = 4")
    case True
    have "length (filter (\<lambda>c. rank c = r) cs) = 4" using Cons.prems(2) [of r n] True a by simp
    then show ?thesis using Cons.prems(1) True a by (auto simp: Let_def split: option.splits)
  next
    case False
    then show ?thesis using Cons a by simp
  qed
qed

lemma Counter_rank_item:
  "(r, n) \<in> set (Counter (map rank cs)) \<Longrightarrow> n = length (filter (\<lambda>c. rank c = r) cs)"
  by (simp add: Counter_item count_list_rank)

lemma check_four_of_a_kind_length:
  "check_four_of_a_kind cs = Inr (Some xs) \<Longrightarrow> length xs = 5"
  unfolding check_four_of_a_kind_def by (erule four_loop_length) (rule Counter_rank_item)

lemma check_two_pair_length:
  assumes "check_two_pair cs = Inr (Some xs)"
  shows "length xs = 5"
proof -
  define pairs where "pairs = map fst (filter (\<lambda>(r, cnt). cnt \<ge> 2) (Counter (map rank cs)))"
  have len: "length pairs \<ge> 2"
    using assms by (auto simp: check_two_pair_def pairs_def Let_def split: if_splits)
  have two: "length (filter (\<lambda>c. rank c = r) cs) \<ge> 2" if "r \<in> set pairs" for r
  proof -
    from that obtain n where "(r, n) \<in> set (Counter (map rank cs))" "n \<ge> 2"
      by (auto simp: pairs_def)
    then show ?thesis using Counter_rank_item by blast
  qed
  have p0: "pairs ! 0 \<in> set pairs" and p1: "pairs ! 1 \<in> set pairs" using len by (auto intro!: nth_mem)
  have "length (take 2 (filter (\<lambda>c. rank c = pairs ! 0) cs)) = 2"
       "length (take 2 (filter (\<lambda>c. rank c = pairs ! 1) cs)) = 2"
    using two [OF p0] two [OF p1] by simp_all
  then show ?thesis
    using assms len unfolding check_two_pair_def pairs_def [symmetric] Let_def
    by (auto split: if_splits option.splits)
qed

lemma evaluate_cards_four_kind:
  assumes "check_straight_flush (sorted_reverse card_key cs) = None"
    and "check_four_of_a_kind (sorted_reverse card_key cs) = Inr (Some xs)"
  shows "evaluate_cards cs = Inr (high_card (sorted_reverse card_key cs))"
proof -
  have "length xs = 5" using assms(2) by (rule check_four_of_a_kind_length)
  then show ?thesis using assms by (auto simp: evaluate_cards_def Let_def truthy_def)
qed

lemma evaluate_cards_three_kind:
  assumes "check_straight_flush (sorted_reverse card_key cs) = None"
    and "check_four_of_a_kind (sorted_reverse card_key cs) = Inr None"
    and "check_full_house (sorted_reverse card_key cs) = None"
    and "check_flush (sorted_reverse card_key cs) = None"
    and "check_straight (sorted_reverse card_key cs) = None"
    and "check_three_of_a_kind (sorted_reverse card_key cs) = Some xs"
    and "length xs > 3"
  shows "evaluate_cards cs = Inr (high_card (sorted_reverse card_key cs))"
  using assms by (auto simp: evaluate_cards_def Let_def truthy_def)

lemma evaluate_cards_two_pair:
  assumes "check_straight_flush (sorted_reverse card_key cs) = None"
    and "check_four_of_a_kind (sorted_reverse card_key cs) = Inr None"
    and "check_full_house (sorted_reverse card_key cs) = None"
    and "check_flush (sorted_reverse card_key cs) = None"
    and "check_straight (sorted_reverse card_key cs) = None"
    and "check_three_of_a_kind (sorted_reverse card_key cs) = None"
    and "check_two_pair (sorted_reverse card_key cs) = Inr (Some xs)"
  shows "evaluate_cards cs = Inr (high_card (sorted_reverse card_key cs))"
proof -
  have "length xs = 5" using assms(7) by (rule check_two_pair_length)
  then show ?thesis using assms by (auto simp: evaluate_cards_def Let_def truthy_def)
qed

lemma evaluate_cards_pair:
  assumes "check_straight_flush (sorted_reverse card_key cs) = None"
    and "check_four_of_a_kind (sorted_reverse card_key cs) = Inr None"
    and "check_full_house (sorted_reverse card_key cs) = None"
    and "check_flush (sorted_reverse card_key cs) = None"
    and "check_straight (sorted_reverse card_key cs) = None"
    and "check_three_of_a_kind (sorted_reverse card_key cs) = None"
    and "check_two_pair (sorted_reverse card_key cs) = Inr None"
    and "check_pair (sorted_reverse card_key cs) = Some xs"
    and "length xs > 2"
  shows "evaluate_cards cs = Inr (high_card (sorted_reverse card_key cs))"
  using assms by (auto simp: evaluate_cards_def Let_def truthy_def)

subsection \<open>Four cards of one rank among five to seven cards\<close>

lemma mset_sorted_reverse [simp]: "mset (sorted_reverse key xs) = mset xs"
  by (simp add: sorted_reverse_def)

lemma set_sorted_reverse [simp]: "set (sorted_reverse key xs) = set xs"
  by (simp add: sorted_reverse_def)

lemma length_sorted_reverse [simp]: "length (sorted_reverse key xs) = length xs"
  by (simp add: sorted_reverse_def)

lemma length_filter_sorted_reverse:
  "length (filter P (sorted_reverse key xs)) = length (filter P xs)"
proof -
  have "mset (filter P (sorted_reverse key xs)) = mset (filter P xs)" by simp
  then show ?thesis by (metis size_mset)
qed

lemma check_straight_few_ranks:
  assumes "card (rank ` set cs) < 5"
  shows "check_straight cs = None"
proof -
  define ranks where "ranks = sort_key rank_index (remdups (map rank cs))"
  have set_ranks: "set ranks = rank ` set cs" by (simp add: ranks_def)
  have len: "length ranks = card (rank ` set cs)"
    by (simp add: ranks_def length_remdups_card_conv)
  have no_wheel: "\<not> (ACE \<in> set ranks \<and> TWO \<in> set ranks \<and> THREE \<in> set ranks
      \<and> FOUR \<in> set ranks \<and> FIVE \<in> set ranks)"
  proof
    assume "ACE \<in> set ranks \<and> TWO \<in> set ranks \<and> THREE \<in> set ranks
      \<and> FOUR \<in> set ranks \<and> FIVE \<in> set ranks"
    then have "{ACE, TWO, THREE, FOUR, FIVE} \<subseteq> rank ` set cs" using set_ranks by auto
    then have "card {ACE, TWO, THREE, FOUR, FIVE} \<le> card (rank ` set cs)"
      by (intro card_mono) auto
    then show False using assms by simp
  qed
  have "length ranks - 4 = 0" using len assms by simp
  then show ?thesis
    using no_wheel unfolding check_straight_def ranks_def [symmetric] Let_def by simp
qed

lemma straight_flush_loop_few_ranks:
  assumes "card (rank ` set cs) < 5"
  shows "straight_flush_loop ss cs = None"
proof (induction ss)
  case Nil
  then show ?case by simp
next
  case (Cons s ss)
  let ?suited = "sort_key card_key (filter (\<lambda>c. suit c = s) cs)"
  have "rank ` set ?suited \<subseteq> rank ` set cs" by auto
  then have "card (rank ` set ?suited) \<le> card (rank ` set cs)" by (intro card_mono) auto
  then have "check_straight ?suited = None" using assms by (intro check_straight_few_ranks) simp
  then show ?case using Cons.IH by (simp add: truthy_def)
qed

lemma four_loop_some:
  assumes "(r, 4) \<in> set rcs"
    and "\<And>r n. (r, n) \<in> set rcs \<Longrightarrow> n = length (filter (\<lambda>c. rank c = r) cs)"
    and "length cs > 4"
  shows "\<exists>xs. four_of_a_kind_loop rcs cs = Inr (Some xs)"
  using assms
proof (induction rcs)
  case Nil
  then show ?case by simp
next
  case (Cons a rcs)
  obtain r' n where a: "a = (r', n)" by (cases a)
  show ?case
  proof (cases "n = 4")
    case True
    have four: "length (filter (\<lambda>c. rank c = r') cs) = 4"
      using Cons.prems(2) [of r' n] True a by simp
    have "find (\<lambda>c. rank c \<noteq> r') cs \<noteq> None"
    proof
      assume "find (\<lambda>c. rank c \<noteq> r') cs = None"
      then have "\<forall>c \<in> set cs. rank c = r'" by (auto simp: find_None_iff)
      then have "filter (\<lambda>c. rank c = r') cs = cs" by (simp add: filter_id_conv)
      then show False using four Cons.prems(3) by simp
    qed
    then show ?thesis using True a by (auto simp: Let_def)
  next
    case False
    then have "(r, 4) \<in> set rcs" using Cons.prems(1) a by auto
    then show ?thesis using Cons False a by simp
  qed
qed

lemma few_ranks_of_quads:
  assumes "length (filter (\<lambda>c. rank c = r) cs) = 4" and "length cs \<le> 7"
  shows "card (rank ` set cs) < 5"
proof -
  let ?others = "filter (\<lambda>c. rank c \<noteq> r) cs"
  have "length (filter (\<lambda>c. rank c = r) cs) + length ?others = length cs"
    by (rule sum_length_filter_compl)
  then have others: "length ?others \<le> 3" using assms by simp
  have "card (rank ` set ?others) \<le> card (set ?others)" by (rule card_image_le) simp
  also have "\<dots> \<le> length ?others" by (rule card_length)
  finally have c: "card (rank ` set ?others) \<le> 3" using others by simp
  have "rank ` set cs \<subseteq> insert r (rank ` set ?others)" by auto
  then have "card (rank ` set cs) \<le> card (insert r (rank ` set ?others))"
    by (intro card_mono) auto
  also have "\<dots> \<le> Suc (card (rank ` set ?others))" by (simp add: card_insert_if)
  finally show ?thesis using c by simp
qed

lemma evaluate_cards_quads:
  assumes quads: "count_list (map rank cs) r = 4"
    and len: "5 \<le> length cs" "length cs \<le> 7"
  shows "evaluate_cards cs = Inr (high_card (sorted_reverse card_key cs))"
proof -
  let ?sc = "sorted_reverse card_key cs"
  have four: "length (filter (\<lambda>c. rank c = r) ?sc) = 4"
    using quads by (simp add: length_filter_sorted_reverse count_list_rank)
  have "card (rank ` set ?sc) < 5" using four len by (intro few_ranks_of_quads) simp_all
  then have sf: "check_straight_flush ?sc = None"
    unfolding check_straight_flush_def by (rule straight_flush_loop_few_ranks)
  have "filter (\<lambda>c. rank c = r) ?sc \<noteq> []" using four by auto
  then have "r \<in> set (map rank ?sc)" by (auto simp: filter_empty_conv)
  then have item: "(r, 4) \<in> set (Counter (map rank ?sc))"
    using four by (simp add: Counter_item count_list_rank)
  have "\<exists>xs. four_of_a_kind_loop (Counter (map rank ?sc)) ?sc = Inr (Some xs)"
  proof (rule four_loop_some [OF item])
    show "n = length (filter (\<lambda>c. rank c = r') ?sc)"
      if "(r', n) \<in> set (Counter (map rank ?sc))" for r' n
      using that by (rule Counter_rank_item)
    show "4 < length ?sc" using len by simp
  qed
  then obtain xs where "check_four_of_a_kind ?sc = Inr (Some xs)"
    unfolding check_four_of_a_kind_def by blast
  with sf show ?thesis by (rule evaluate_cards_four_kind)
qed

(*C1*)
subsection \<open>Straights are ranked by their lowest card\<close>

text \<open>
  Claim C4 says that ace to five of mixed suits is a straight whose tie-break is that of a
  top card five, strictly below the straight two to six. \<^verbatim>\<open>_check_straight\<close> returns
  its cards in ascending order, and \<^verbatim>\<open>_evaluate_cards\<close> takes the first of them for the
  tie-break: for ace to five that is the two (index 0), and for two to six it is the two as
  well. Both hands get \<^verbatim>\<open>(STRAIGHT, [0])\<close>, so neither is below the other.
\<close>

theorem ace_low_straight_ties_six_high:
  "evaluate_cards [Card ACE HEARTS, Card TWO DIAMONDS, Card THREE CLUBS, Card FOUR SPADES,
       Card FIVE HEARTS] = Inr (HandStrength STRAIGHT [0])
   \<and> evaluate_cards [Card TWO HEARTS, Card THREE DIAMONDS, Card FOUR CLUBS, Card FIVE SPADES,
       Card SIX HEARTS] = Inr (HandStrength STRAIGHT [0])
   \<and> \<not> hand_key (HandStrength STRAIGHT [0]) < hand_key (HandStrength STRAIGHT [0])"
proof -
  have "evaluate_cards [Card ACE HEARTS, Card TWO DIAMONDS, Card THREE CLUBS, Card FOUR SPADES,
       Card FIVE HEARTS] = Inr (HandStrength STRAIGHT [0])" by code_simp
  moreover have "evaluate_cards [Card TWO HEARTS, Card THREE DIAMONDS, Card FOUR CLUBS,
       Card FIVE SPADES, Card SIX HEARTS] = Inr (HandStrength STRAIGHT [0])" by code_simp
  ultimately show ?thesis by simp
qed

text \<open>
  Claim C5 says that a suited ten to ace is classified \<^verbatim>\<open>ROYAL_FLUSH\<close>, the test being
  \<^verbatim>\<open>straight_flush[0].rank == Rank.ACE\<close>. The first card of the ascending list is the
  ten, so the test fails and the hand is a \<^verbatim>\<open>STRAIGHT_FLUSH\<close> with tie-break 8.
\<close>

theorem royal_flush_is_straight_flush:
  "evaluate_cards [Card TEN SPADES, Card JACK SPADES, Card QUEEN SPADES, Card KING SPADES,
       Card ACE SPADES] = Inr (HandStrength STRAIGHT_FLUSH [8])"
  by code_simp

text \<open>
  The same holds for every input: the first card of the list that \<^verbatim>\<open>_check_straight\<close>
  returns is the lowest of a straight, never an ace, so \<^verbatim>\<open>_evaluate_cards\<close> never
  returns \<^verbatim>\<open>ROYAL_FLUSH\<close>.
\<close>

lemma sorted_first_least:
  assumes "sorted (map f xs)" and "x \<in> set xs"
  shows "f (xs ! 0) \<le> f x"
proof (cases xs)
  case Nil
  then show ?thesis using assms by simp
next
  case (Cons y ys)
  then show ?thesis using assms by auto
qed

lemma check_straight_first_not_ace:
  assumes "check_straight cs = Some st"
  shows "rank (st ! 0) \<noteq> ACE"
proof -
  define ranks where "ranks = sort_key rank_index (remdups (map rank cs))"
  have set_ranks: "set ranks = rank ` set cs" by (simp add: ranks_def)
  show ?thesis
  proof (cases "ACE \<in> set ranks \<and> TWO \<in> set ranks \<and> THREE \<in> set ranks \<and> FOUR \<in> set ranks
      \<and> FIVE \<in> set ranks")
    case True
    let ?L = "sort_key card_key (filter (\<lambda>c. rank c \<in> set wheel) cs)"
    have st: "st = ?L"
      using assms True unfolding check_straight_def ranks_def [symmetric] Let_def by simp
    from True obtain c where c: "c \<in> set cs" "rank c = TWO" using set_ranks by auto
    then have "c \<in> set ?L" by (simp add: wheel_def)
    moreover have "sorted (map card_key ?L)" by simp
    ultimately have "card_key (?L ! 0) \<le> card_key c" by (rule sorted_first_least [rotated])
    then have "rank_index (rank (st ! 0)) = 0" using c by (simp add: st card_key_def)
    then show ?thesis by (cases "rank (st ! 0)") simp_all
  next
    case False
    from assms False obtain i where
      f: "find (consecutive_at ranks) [0..<length ranks - 4] = Some i"
      and st: "st = take 5 (sort_key card_key
                 (filter (\<lambda>c. rank c \<in> set (take 5 (drop i ranks))) cs))"
      unfolding check_straight_def ranks_def [symmetric] Let_def
      by (auto split: option.splits)
    let ?L = "sort_key card_key (filter (\<lambda>c. rank c \<in> set (take 5 (drop i ranks))) cs)"
    from f have i: "i < length ranks - 4" and cons: "consecutive_at ranks i"
      by (auto simp: find_Some_iff)
    from cons have "int (rank_index (ranks ! (i + 0 + 1))) - int (rank_index (ranks ! (i + 0))) = 1"
      unfolding consecutive_at_def list_all_iff by (rule bspec) simp
    then have step: "rank_index (ranks ! (i + 1)) = rank_index (ranks ! i) + 1" by simp
    have "rank_index (ranks ! (i + 1)) \<le> 12" by (cases "ranks ! (i + 1)") simp_all
    then have low: "rank_index (ranks ! i) < 12" using step by simp
    have "ranks ! i \<in> set (take 5 (drop i ranks))"
    proof -
      have "take 5 (drop i ranks) ! 0 = ranks ! i" using i by simp
      moreover have "0 < length (take 5 (drop i ranks))" using i by simp
      ultimately show ?thesis by (metis nth_mem)
    qed
    moreover have "ranks ! i \<in> rank ` set cs"
    proof -
      have "i < length ranks" using i by simp
      then have "ranks ! i \<in> set ranks" by (rule nth_mem)
      then show ?thesis by (simp only: set_ranks)
    qed
    ultimately obtain c where c: "c \<in> set cs" "rank c = ranks ! i"
      "rank c \<in> set (take 5 (drop i ranks))" by auto
    then have cL: "c \<in> set ?L" by simp
    have "sorted (map card_key ?L)" by simp
    then have "card_key (?L ! 0) \<le> card_key c" using cL by (rule sorted_first_least)
    moreover have "st ! 0 = ?L ! 0" by (simp add: st)
    ultimately have "rank_index (rank (st ! 0)) < 12" using low c by (simp add: card_key_def)
    then show ?thesis by (cases "rank (st ! 0)") simp_all
  qed
qed

lemma straight_flush_loop_first_not_ace:
  "straight_flush_loop ss cs = Some st \<Longrightarrow> rank (st ! 0) \<noteq> ACE"
  by (induction ss) (auto simp: Let_def split: if_splits dest: check_straight_first_not_ace)

lemma evaluate_cards_never_royal_aux:
  "(case evaluate_cards cs of Inl e \<Rightarrow> True | Inr hs \<Rightarrow> hs_rank hs \<noteq> ROYAL_FLUSH)"
proof (cases "truthy (check_straight_flush (sorted_reverse card_key cs))")
  case True
  then obtain st where st: "check_straight_flush (sorted_reverse card_key cs) = Some st"
    by (auto simp: truthy_def split: option.splits)
  then have "rank (st ! 0) \<noteq> ACE"
    unfolding check_straight_flush_def by (rule straight_flush_loop_first_not_ace)
  then show ?thesis
    using True st by (simp add: evaluate_cards_def Let_def HandStrength_def high_card_def)
next
  case False
  then show ?thesis
    by (simp add: evaluate_cards_def Let_def HandStrength_def high_card_def split: sum.split)
qed

lemma evaluate_cards_never_royal:
  "evaluate_cards cs = Inr hs \<Longrightarrow> hs_rank hs \<noteq> ROYAL_FLUSH"
  using evaluate_cards_never_royal_aux [of cs] by simp

section \<open>Properties of the decision policy\<close>

lemma preflop_strategy_cases:
  assumes "preflop_strategy p to_call pt late = (a, amt)" and "to_call \<le> stack p"
  shows "((a = ''fold'' \<and> amt = 0) \<or> (a = ''call'' \<and> amt = to_call) \<or> a = ''raise'')
    \<and> (a \<noteq> ''fold'' \<longrightarrow> amt \<le> stack p)"
  using assms by (auto simp: preflop_strategy_def Let_def split: if_splits)

lemma postflop_strategy_cases:
  assumes "postflop_strategy p h to_call pt late = (a, amt)" and "to_call \<le> stack p"
  shows "((a = ''fold'' \<and> amt = 0) \<or> (a = ''call'' \<and> amt = to_call) \<or> a = ''raise'')
    \<and> (a \<noteq> ''fold'' \<longrightarrow> amt \<le> stack p)"
  using assms by (auto simp: postflop_strategy_def split: if_splits)

lemma make_decision_cases:
  assumes "make_decision p to_call pt cc = Inr (a, amt)"
  shows "((a = ''fold'' \<and> amt = 0) \<or> (a = ''call'' \<and> amt = to_call) \<or> a = ''raise'')
    \<and> (a \<noteq> ''fold'' \<longrightarrow> amt \<le> stack p)"
proof (cases "to_call > stack p")
  case True
  then show ?thesis using assms by (simp add: make_decision_def)
next
  case False
  then have le: "to_call \<le> stack p" by simp
  from assms False obtain h late where
    "preflop_strategy p to_call pt late = (a, amt) \<or> postflop_strategy p h to_call pt late = (a, amt)"
    by (auto simp: make_decision_def Let_def split: sum.splits if_splits)
  then show ?thesis using preflop_strategy_cases [OF _ le] postflop_strategy_cases [OF _ le] by blast
qed

text \<open>
  Claim C7, amended. If \<open>to_call\<close> exceeds the stack, \<^verbatim>\<open>make_decision\<close> returns
  \<^verbatim>\<open>("fold", 0.0)\<close>. Whenever it returns, the action is a fold with amount 0, a call with
  amount \<open>to_call\<close>, or a raise; the amount of a call or a raise never exceeds the stack,
  and no amount exceeds a stack that is not negative.
\<close>

theorem make_decision_amount:
  "(to_call > stack p \<longrightarrow> make_decision p to_call pt cc = Inr (''fold'', 0))
   \<and> (make_decision p to_call pt cc = Inr (a, amt) \<longrightarrow>
        ((a = ''fold'' \<and> amt = 0) \<or> (a = ''call'' \<and> amt = to_call) \<or> a = ''raise'')
        \<and> (a \<noteq> ''fold'' \<longrightarrow> amt \<le> stack p)
        \<and> (0 \<le> stack p \<longrightarrow> amt \<le> stack p))"
proof (intro conjI impI)
  assume "to_call > stack p"
  then show "make_decision p to_call pt cc = Inr (''fold'', 0)" by (simp add: make_decision_def)
next
  assume d: "make_decision p to_call pt cc = Inr (a, amt)"
  show "(a = ''fold'' \<and> amt = 0) \<or> (a = ''call'' \<and> amt = to_call) \<or> a = ''raise''"
    using make_decision_cases [OF d] by blast
  show "amt \<le> stack p" if "a \<noteq> ''fold''" using make_decision_cases [OF d] that by blast
  show "amt \<le> stack p" if "0 \<le> stack p" using make_decision_cases [OF d] that by auto
qed

text \<open>
  A player with 5 chips facing a bet of 10 folds; a player with 1000 chips and a pair of
  aces raises an unopened pot of 15 to 11.25, which is within the stack.
\<close>

theorem make_decision_amount_witness:
  "make_decision ((Player ''Player 1'' 5)\<lparr>hole_cards := [Card ACE HEARTS, Card ACE SPADES]\<rparr>)
      10 15 [] = Inr (''fold'', 0)
   \<and> make_decision
        ((Player ''Player 2'' 1000)\<lparr>hole_cards := [Card ACE HEARTS, Card ACE SPADES]\<rparr>)
        0 15 [] = Inr (''raise'', 45 / 4)
   \<and> (45 / 4 :: real) \<le> stack ((Player ''Player 2'' 1000)\<lparr>hole_cards := [Card ACE HEARTS, Card ACE SPADES]\<rparr>)"
proof -
  let ?p1 = "(Player ''Player 1'' 5)\<lparr>hole_cards := [Card ACE HEARTS, Card ACE SPADES]\<rparr>"
  let ?p2 = "(Player ''Player 2'' 1000)\<lparr>hole_cards := [Card ACE HEARTS, Card ACE SPADES]\<rparr>"
  have h1: "(10 :: real) > stack ?p1" by (simp add: Player_def)
  have h2: "make_decision ?p2 0 15 [] = Inr (''raise'', 45 / 4)" by code_simp
  have h3: "(0::real) \<le> stack ?p2" by (simp add: Player_def)
  have a: "make_decision ?p1 10 15 [] = Inr (''fold'', 0)"
    using make_decision_amount [of ?p1 10 15 "[]"] h1 by blast
  have b: "(45 / 4 :: real) \<le> stack ?p2"
    using make_decision_amount [of ?p2 0 15 "[]" "''raise''" "45 / 4"] h2 h3 by blast
  show ?thesis using a h2 b by blast
qed

text \<open>
  Claim C7 as stated says that the amount never exceeds the stack. Blinds are debited
  without a check, so a big blind of 10 takes a stack of 3 to -7; asked to act with
  nothing to call, that player folds with amount 0, which is more than the stack.
\<close>

theorem make_decision_amount_counterexample:
  "make_decision ((Player ''Player 3'' (- 7))\<lparr>current_bet := 10, position := ''BB''\<rparr>) 0 15 []
     = Inr (''fold'', 0)
   \<and> \<not> (0 :: real) \<le> stack ((Player ''Player 3'' (- 7))\<lparr>current_bet := 10, position := ''BB''\<rparr>)"
  by (simp add: make_decision_def Player_def)

section \<open>Properties of the game\<close>

subsection \<open>Seat labels\<close>

text \<open>
  Claim C8 says that the labelling of the seats never indexes out of range for 2 to 9
  players, in particular not in \<^verbatim>\<open>run_simulation\<close>. The loop in \<^verbatim>\<open>reset_hand\<close> has the
  branch for the seats after the sixth; the loop in \<^verbatim>\<open>run_simulation\<close> has not, and with
  7, 8 or 9 players it raises \<^verbatim>\<open>IndexError\<close> at the seat whose position is 6, in the
  first hand, whatever the stacks, blinds and random choices.
\<close>

theorem run_simulation_positions_fail:
  "run_simulation_positions (PokerGame 7 istack sb bb four) = Inl IndexError
   \<and> run_simulation_positions (PokerGame 8 istack sb bb four) = Inl IndexError
   \<and> run_simulation_positions (PokerGame 9 istack sb bb four) = Inl IndexError
   \<and> run_simulation fuel rnds (Suc num_hands) (PokerGame 7 istack sb bb four) = Some (Inl IndexError)"
proof -
  have a: "run_simulation_positions (PokerGame 7 istack sb bb four) = Inl IndexError"
    by code_simp
  have b: "run_simulation_positions (PokerGame 8 istack sb bb four) = Inl IndexError"
    by code_simp
  have c: "run_simulation_positions (PokerGame 9 istack sb bb four) = Inl IndexError"
    by code_simp
  show ?thesis using a b c by simp
qed

text \<open>The loop of \<^verbatim>\<open>reset_hand\<close> on a table of nine, for comparison.\<close>

lemma reset_hand_labels_nine:
  "map_sum id (\<lambda>g. map position (players g)) (reset_hand (PokerGame 9 1000 5 10 False))
     = Inr [''MP4'', ''BTN'', ''SB'', ''BB'', ''UTG'', ''MP'', ''CO'', ''MP2'', ''MP3'']"
  by code_simp

text \<open>
  In general: on a game with as many players as \<open>num_players\<close> says, \<^verbatim>\<open>reset_hand\<close>
  labels every seat, the seats from position 6 on as MP2, MP3 and so on, while the loop
  of \<^verbatim>\<open>run_simulation\<close> fails for every table of seven or more, wherever the button is.
\<close>

lemma reset_hand_label_total:
  "reset_hand_label pos = Inr (projr (reset_hand_label pos))"
  by (simp add: reset_hand_label_def)

lemma set_positions_reset:
  assumes "\<forall>i \<in> set seats. i < length ps"
  shows "\<exists>ps'. set_positions reset_hand_label b n seats ps = Inr ps' \<and> length ps' = length ps
    \<and> (\<forall>i < length ps. position (ps' ! i)
          = (if i \<in> set seats then projr (reset_hand_label (seat_pos i b n))
             else position (ps ! i)))"
  using assms
proof (induction seats arbitrary: ps)
  case Nil
  then show ?case by simp
next
  case (Cons s seats)
  define l where "l = projr (reset_hand_label (seat_pos s b n))"
  have l: "reset_hand_label (seat_pos s b n) = Inr l"
    unfolding l_def by (rule reset_hand_label_total)
  let ?ps1 = "ps[s := (ps ! s)\<lparr>position := l\<rparr>]"
  have s: "s < length ps" using Cons.prems by simp
  have "\<forall>i \<in> set seats. i < length ?ps1" using Cons.prems by simp
  from Cons.IH [OF this] obtain ps' where
    r: "set_positions reset_hand_label b n seats ?ps1 = Inr ps'"
    and len: "length ps' = length ?ps1"
    and pos: "\<forall>i < length ?ps1. position (ps' ! i)
          = (if i \<in> set seats then projr (reset_hand_label (seat_pos i b n))
             else position (?ps1 ! i))"
    by blast
  have "set_positions reset_hand_label b n (s # seats) ps = Inr ps'" using r l s by simp
  moreover have "length ps' = length ps" using len by simp
  moreover have "\<forall>i < length ps. position (ps' ! i)
          = (if i \<in> set (s # seats) then projr (reset_hand_label (seat_pos i b n))
             else position (ps ! i))"
    using pos l s by (auto simp: nth_list_update)
  ultimately show ?case by (intro exI [of _ ps']) simp
qed

lemma reset_hand_labels:
  assumes n: "0 < num_players g" and wf: "length (players g) = num_players g"
  shows "\<exists>g'. reset_hand g = Inr g' \<and> length (players g') = num_players g
    \<and> button_pos g' = (button_pos g + 1) mod num_players g
    \<and> (\<forall>i < num_players g. position (players g' ! i)
          = (if seat_pos i (button_pos g') (num_players g) < 6
             then position_names ! seat_pos i (button_pos g') (num_players g)
             else ''MP'' @ str_nat (seat_pos i (button_pos g') (num_players g) - 4)))"
proof -
  let ?b = "(button_pos g + 1) mod num_players g"
  have "\<forall>i \<in> set [0..<num_players g]. i < length (players g)" using wf by simp
  from set_positions_reset [OF this, of ?b "num_players g"] obtain ps' where
    r: "set_positions reset_hand_label ?b (num_players g) [0..<num_players g] (players g) = Inr ps'"
    and len: "length ps' = length (players g)"
    and pos: "\<forall>i < length (players g). position (ps' ! i)
          = (if i \<in> set [0..<num_players g]
             then projr (reset_hand_label (seat_pos i ?b (num_players g)))
             else position (players g ! i))"
    by blast
  let ?g' = "g\<lparr>deck := Deck, community_cards := [], pot := 0, table_bet := 0,
               button_pos := ?b, players := map (rebuy (initial_stack g)) ps'\<rparr>"
  have eq: "reset_hand g = Inr ?g'" using n r by (simp add: reset_hand_def Let_def)
  have rb: "position (rebuy a p) = position p" for a p
    by (simp add: rebuy_def Let_def player_reset_hand_def)
  have "\<forall>i < num_players g. position (players ?g' ! i)
          = (if seat_pos i ?b (num_players g) < 6
             then position_names ! seat_pos i ?b (num_players g)
             else ''MP'' @ str_nat (seat_pos i ?b (num_players g) - 4))"
    using pos len wf by (auto simp: rb reset_hand_label_def position_names_def)
  then show ?thesis using eq len wf by simp
qed

lemma set_positions_run_simulation_fails:
  assumes "\<exists>i \<in> set seats. 6 \<le> seat_pos i b n"
  shows "set_positions run_simulation_label b n seats ps = Inl IndexError"
  using assms
proof (induction seats arbitrary: ps)
  case Nil
  then show ?case by simp
next
  case (Cons s seats)
  show ?case
  proof (cases "6 \<le> seat_pos s b n")
    case True
    then show ?thesis by (simp add: run_simulation_label_def position_names_def)
  next
    case False
    then have "\<exists>i \<in> set seats. 6 \<le> seat_pos i b n" using Cons.prems by auto
    then show ?thesis using Cons.IH by (simp add: run_simulation_label_def split: sum.splits)
  qed
qed

lemma seat_pos_six:
  assumes "7 \<le> n" and "b < n"
  shows "seat_pos ((b + 6) mod n) b n = 6"
proof -
  have "(int ((b + 6) mod n) - int b) mod int n = (int (b + 6) - int b) mod int n"
    by (simp add: zmod_int mod_diff_left_eq)
  also have "\<dots> = 6 mod int n" by simp
  also have "\<dots> = 6" using assms by simp
  finally show ?thesis by (simp add: seat_pos_def)
qed

lemma run_simulation_labels_seven_or_more:
  assumes "7 \<le> num_players g"
  shows "run_simulation_positions g = Inl IndexError"
proof -
  let ?n = "num_players g" and ?b = "(button_pos g + 1) mod num_players g"
  have b: "?b < ?n" using assms by simp
  have "(?b + 6) mod ?n \<in> set [0..<?n]" using assms by simp
  moreover have "6 \<le> seat_pos ((?b + 6) mod ?n) ?b ?n" using seat_pos_six [OF assms b] by simp
  ultimately have "\<exists>i \<in> set [0..<?n]. 6 \<le> seat_pos i ?b ?n" by blast
  then have "set_positions run_simulation_label ?b ?n [0..<?n] (players g) = Inl IndexError"
    by (rule set_positions_run_simulation_fails)
  then show ?thesis using assms by (simp add: run_simulation_positions_def Let_def)
qed

(*C3*)
subsection \<open>The folded flag\<close>

lemma map_folded_update:
  "folded p = folded (ps ! i) \<Longrightarrow> map folded (ps[i := p]) = map folded ps"
  by (induction ps arbitrary: i) (auto split: nat.splits)

lemma no_folded_iff: "no_folded g \<longleftrightarrow> (\<forall>b \<in> set (map folded (players g)). \<not> b)"
  by (auto simp: no_folded_def list_all_iff)

lemma no_folded_cong:
  "map folded (players g') = map folded (players g) \<Longrightarrow> no_folded g' = no_folded g"
  unfolding no_folded_iff by simp

lemma folded_apply_action:
  "map folded (players (apply_action pos action amount g)) = map folded (players g)"
  by (simp add: apply_action_def Let_def map_folded_update)

lemma no_folded_reset_hand: "reset_hand g = Inr g' \<Longrightarrow> no_folded g'"
  by (auto simp: reset_hand_def Let_def no_folded_def list_all_iff rebuy_def player_reset_hand_def
      split: if_splits sum.splits)

lemma folded_post_blind:
  "map folded (players (post_blind pos blind g)) = map folded (players g)"
  by (simp add: post_blind_def map_folded_update)

lemma folded_post_blinds:
  assumes a: "post_blinds g = Inr g'"
  shows "map folded (players g') = map folded (players g)"
proof -
  let ?sb = "(button_pos g + 1) mod num_players g" and ?bb = "(button_pos g + 2) mod num_players g"
  let ?g1 = "post_blind ?sb (small_blind g) g"
  have g': "g' = (post_blind ?bb (big_blind ?g1) ?g1)\<lparr>table_bet := big_blind ?g1\<rparr>"
    using a by (simp add: post_blinds_def Let_def split: if_splits)
  have "map folded (players g') = map folded (players (post_blind ?bb (big_blind ?g1) ?g1))"
    by (simp add: g')
  also have "\<dots> = map folded (players ?g1)" by (rule folded_post_blind)
  also have "\<dots> = map folded (players g)" by (rule folded_post_blind)
  finally show ?thesis .
qed

lemma folded_deal_round: "map folded (snd (deal_round d ps)) = map folded ps"
  by (induction ps arbitrary: d)
     (simp_all add: split_beta receive_card_def Let_def split: option.splits prod.splits)

lemma folded_deal_hole_cards:
  "map folded (players (deal_hole_cards rnd g)) = map folded (players g)"
proof -
  obtain d1 ps1 where r1: "deal_round (shuffle rnd (deck g)) (players g) = (d1, ps1)"
    by (cases "deal_round (shuffle rnd (deck g)) (players g)")
  obtain d2 ps2 where r2: "deal_round d1 ps1 = (d2, ps2)" by (cases "deal_round d1 ps1")
  have "map folded ps2 = map folded ps1" using folded_deal_round [of d1 ps1] r2 by simp
  also have "\<dots> = map folded (players g)"
    using folded_deal_round [of "shuffle rnd (deck g)" "players g"] r1 by simp
  finally show ?thesis by (simp add: deal_hole_cards_def r1 r2)
qed

lemma players_deal_community_card [simp]: "players (deal_community_card g) = players g"
  by (simp add: deal_community_card_def split: prod.splits option.splits)

lemma players_deal_community_cards [simp]: "players ((deal_community_card ^^ k) g) = players g"
  by (induction k) simp_all

lemma players_deal [simp]:
  "players (deal_flop g) = players g" "players (deal_turn g) = players g"
  "players (deal_river g) = players g"
  by (simp_all add: deal_flop_def deal_turn_def deal_river_def)

lemma folded_betting_loop:
  "betting_loop fuel start_pos current_pos g = Some (Inr (continue, g')) \<Longrightarrow>
   map folded (players g') = map folded (players g)"
proof (induction fuel arbitrary: current_pos g)
  case 0
  then show ?case by simp
next
  case (Suc fuel)
  from Suc.prems obtain pos where na: "next_active g current_pos = Some (Inr pos)"
    by (auto split: option.splits sum.splits)
  from Suc.prems na obtain action amount where
    md: "make_decision (players g ! pos) (fl (table_bet g - current_bet (players g ! pos)))
           (pot g) (community_cards g) = Inr (action, amount)"
    by (auto simp: Let_def split: sum.splits)
  let ?g1 = "apply_action pos action amount g"
  have n1: "map folded (players ?g1) = map folded (players g)" by (rule folded_apply_action)
  from Suc.prems na md have
    "g' = ?g1 \<or> betting_loop fuel start_pos ((pos + 1) mod num_players ?g1) ?g1
                  = Some (Inr (continue, g'))"
    by (auto simp: Let_def split: if_splits)
  then show ?case using n1 Suc.IH by auto
qed

lemma folded_betting_round:
  "betting_round fuel g = Some (Inr (continue, g')) \<Longrightarrow>
   map folded (players g') = map folded (players g)"
  by (auto simp: betting_round_def Let_def split: if_splits dest: folded_betting_loop)

lemma folded_credit: "map folded (credit w ps i) = map folded ps"
  by (simp add: credit_def map_folded_update)

lemma folded_foldl_credit: "map folded (foldl (credit w) ps ws) = map folded ps"
  by (induction ws arbitrary: ps) (simp_all add: folded_credit)

lemma folded_resolve_winners:
  "resolve_winners g = Inr (ws, g') \<Longrightarrow> map folded (players g') = map folded (players g)"
  by (auto simp: resolve_winners_def Let_def folded_credit folded_foldl_credit
      split: if_splits sum.splits)

lemma folded_play_river:
  assumes "play_river fuel g = Some (Inr (ws, g'))"
  shows "map folded (players g') = map folded (players g)"
proof -
  from assms obtain continue g2 where
    br: "betting_round fuel (deal_river g) = Some (Inr (continue, g2))"
    and rw: "resolve_winners g2 = Inr (ws, g')"
    by (auto simp: play_river_def Let_def split: if_splits option.splits sum.splits)
  show ?thesis using folded_betting_round [OF br] folded_resolve_winners [OF rw] by simp
qed

lemma folded_play_turn:
  assumes "play_turn fuel g = Some (Inr (ws, g'))"
  shows "map folded (players g') = map folded (players g)"
proof -
  from assms obtain continue g2 where
    br: "betting_round fuel (deal_turn g) = Some (Inr (continue, g2))"
    and rest: "(if continue then play_river fuel g2 else Some (resolve_winners g2))
                 = Some (Inr (ws, g'))"
    by (auto simp: play_turn_def Let_def split: if_splits option.splits sum.splits)
  have "map folded (players g') = map folded (players g2)"
    using rest by (auto split: if_splits intro: folded_play_river folded_resolve_winners)
  then show ?thesis using folded_betting_round [OF br] by simp
qed

lemma folded_play_flop:
  assumes "play_flop fuel g = Some (Inr (ws, g'))"
  shows "map folded (players g') = map folded (players g)"
proof -
  from assms obtain continue g2 where
    br: "betting_round fuel (deal_flop g) = Some (Inr (continue, g2))"
    and rest: "(if continue then play_turn fuel g2 else Some (resolve_winners g2))
                 = Some (Inr (ws, g'))"
    by (auto simp: play_flop_def Let_def split: if_splits option.splits sum.splits)
  have "map folded (players g') = map folded (players g2)"
    using rest by (auto split: if_splits intro: folded_play_turn folded_resolve_winners)
  then show ?thesis using folded_betting_round [OF br] by simp
qed

lemma no_folded_play_hand:
  assumes "play_hand fuel rnd g = Some (Inr (ws, g'))"
  shows "no_folded g'"
proof -
  from assms obtain g0 g1 continue g2 where
    r: "reset_hand g = Inr g0" and b: "post_blinds g0 = Inr g1"
    and br: "betting_round fuel (deal_hole_cards rnd g1) = Some (Inr (continue, g2))"
    and rest: "(if continue then play_flop fuel g2 else Some (resolve_winners g2))
                 = Some (Inr (ws, g'))"
    by (auto simp: play_hand_def split: sum.splits option.splits)
  have "map folded (players g') = map folded (players g2)"
    using rest by (auto split: if_splits intro: folded_play_flop folded_resolve_winners)
  also have "\<dots> = map folded (players (deal_hole_cards rnd g1))"
    using br by (rule folded_betting_round)
  also have "\<dots> = map folded (players g1)" by (rule folded_deal_hole_cards)
  also have "\<dots> = map folded (players g0)" using b by (rule folded_post_blinds)
  finally have "no_folded g' = no_folded g0" by (rule no_folded_cong)
  then show ?thesis using no_folded_reset_hand [OF r] by simp
qed

lemma log_folded:
  "no_folded g \<Longrightarrow> list_all (\<lambda>e. \<not> entry_folded e) (log_players (log_hand_results ws g))"
  by (simp add: no_folded_def log_hand_results_def list_all_iff)

lemma run_simulation_logs:
  "run_simulation fuel rnds num_hands g = Some (Inr (logs, g')) \<Longrightarrow>
   list_all (\<lambda>l. list_all (\<lambda>e. \<not> entry_folded e) (log_players l)) logs"
proof (induction num_hands arbitrary: g logs)
  case 0
  then show ?case by simp
next
  case (Suc num_hands)
  from Suc.prems obtain g1 ws g2 logs' where
    ph: "play_hand fuel (rnds num_hands) g1 = Some (Inr (ws, g2))"
    and rs: "run_simulation fuel rnds num_hands g2 = Some (Inr (logs', g'))"
    and logs: "logs = log_hand_results ws g2 # logs'"
    by (auto split: sum.splits option.splits)
  have "list_all (\<lambda>e. \<not> entry_folded e) (log_players (log_hand_results ws g2))"
    using no_folded_play_hand [OF ph] by (rule log_folded)
  then show ?case using Suc.IH [OF rs] logs by simp
qed


text \<open>
  Claim C10. A new player is not folded, \<^verbatim>\<open>Player.reset_hand\<close> clears the flag, and no
  action of the betting round changes the flag of any player: a fold clears
  \<^verbatim>\<open>is_active\<close> only. Hence after every hand that \<^verbatim>\<open>play_hand\<close> completes no player is
  folded, and every player snapshot that \<^verbatim>\<open>run_simulation\<close> logs has \<^verbatim>\<open>folded\<close> false.
  The lemmas before the theorem show the same for each step of a hand (blinds, dealing,
  betting rounds, resolution).
\<close>

theorem folded_stays_false:
  "\<not> folded (Player n s)
   \<and> \<not> folded (player_reset_hand p)
   \<and> map folded (players (apply_action pos action amount g)) = map folded (players g)
   \<and> (pos < length (players g) \<longrightarrow>
        \<not> is_active (players (apply_action pos ''fold'' amount g) ! pos))
   \<and> (play_hand fuel rnd g = Some (Inr (winners, g')) \<longrightarrow>
        list_all (\<lambda>p. \<not> folded p) (players g')
        \<and> list_all (\<lambda>e. \<not> entry_folded e) (log_players (log_hand_results winners g')))
   \<and> (run_simulation fuel rnds num_hands g = Some (Inr (logs, g'')) \<longrightarrow>
        list_all (\<lambda>l. list_all (\<lambda>e. \<not> entry_folded e) (log_players l)) logs)"
proof (intro conjI impI)
  show "\<not> folded (Player n s)" by (simp add: Player_def)
  show "\<not> folded (player_reset_hand p)" by (simp add: player_reset_hand_def)
  show "map folded (players (apply_action pos action amount g)) = map folded (players g)"
    by (rule folded_apply_action)
  show "\<not> is_active (players (apply_action pos ''fold'' amount g) ! pos)"
    if "pos < length (players g)"
    using that by (simp add: apply_action_def Let_def)
next
  assume ph: "play_hand fuel rnd g = Some (Inr (winners, g'))"
  have nf: "no_folded g'" using ph by (rule no_folded_play_hand)
  then show "list_all (\<lambda>p. \<not> folded p) (players g')" by (simp add: no_folded_def)
  show "list_all (\<lambda>e. \<not> entry_folded e) (log_players (log_hand_results winners g'))"
    using nf by (rule log_folded)
next
  assume "run_simulation fuel rnds num_hands g = Some (Inr (logs, g''))"
  then show "list_all (\<lambda>l. list_all (\<lambda>e. \<not> entry_folded e) (log_players l)) logs"
    by (rule run_simulation_logs)
qed

text \<open>
  A fold at seat 0, a hand of two players that ends with seat 1 winning the blinds, and a
  simulation of two hands at a table of three.
\<close>

theorem folded_stays_false_witness:
  "\<not> is_active (players (apply_action 0 ''fold'' 0 (PokerGame 2 1000 5 10 False)) ! 0)
   \<and> map_option (map_sum id fst) (play_hand 50 (\<lambda>i. 7 * i + 3) (PokerGame 2 1000 5 10 False))
       = Some (Inr [(1, 15)])
   \<and> list_all (\<lambda>p. \<not> folded p)
        (players (snd (projr (the (play_hand 50 (\<lambda>i. 7 * i + 3) (PokerGame 2 1000 5 10 False))))))
   \<and> map_option (map_sum id (\<lambda>r. length (fst r)))
        (run_simulation 50 (\<lambda>k i. (7 + k) * i + 3) 2 (PokerGame 3 1000 5 10 False))
       = Some (Inr 2)
   \<and> list_all (\<lambda>l. list_all (\<lambda>e. \<not> entry_folded e) (log_players l))
        (fst (projr (the (run_simulation 50 (\<lambda>k i. (7 + k) * i + 3) 2
                            (PokerGame 3 1000 5 10 False)))))"
proof -
  let ?G = "PokerGame 2 1000 5 10 False"
  let ?H = "play_hand 50 (\<lambda>i. 7 * i + 3) ?G"
  let ?S = "run_simulation 50 (\<lambda>k i. (7 + k) * i + 3) 2 (PokerGame 3 1000 5 10 False)"
  have len: "0 < length (players ?G)" by code_simp
  have h: "?H = Some (Inr (fst (projr (the ?H)), snd (projr (the ?H))))" by code_simp
  have hw: "map_option (map_sum id fst) ?H = Some (Inr [(1, 15)])" by code_simp
  have s: "?S = Some (Inr (fst (projr (the ?S)), snd (projr (the ?S))))" by code_simp
  have sw: "map_option (map_sum id (\<lambda>r. length (fst r))) ?S = Some (Inr 2)" by code_simp
  have a: "\<not> is_active (players (apply_action 0 ''fold'' 0 ?G) ! 0)"
    using folded_stays_false [where pos = 0 and g = ?G and amount = 0] len by blast
  have b: "list_all (\<lambda>p. \<not> folded p) (players (snd (projr (the ?H))))"
    using folded_stays_false [where fuel = 50 and rnd = "\<lambda>i. 7 * i + 3" and g = ?G
        and winners = "fst (projr (the ?H))" and g' = "snd (projr (the ?H))"] h by blast
  have c: "list_all (\<lambda>l. list_all (\<lambda>e. \<not> entry_folded e) (log_players l)) (fst (projr (the ?S)))"
    using folded_stays_false [where fuel = 50 and rnds = "\<lambda>k i. (7 + k) * i + 3"
        and num_hands = 2 and g = "PokerGame 3 1000 5 10 False"
        and logs = "fst (projr (the ?S))" and g'' = "snd (projr (the ?S))"] s by blast
  show ?thesis using a hw b sw c by blast
qed

(*C2*)

end
